theory Spec2Isabelle
  imports Main
begin

section \<open>Values of the template layer\<close>

text \<open>
  Primitive JavaScript values. Numbers are modelled as unbounded integers
  (no fractions, no NaN, no negative zero).
\<close>

datatype lit = Undefined | Null | Bool bool | Num int | Str string

text \<open>
  Values that reach the template compiler and a partial: a primitive, a plain
  function (an expression), a template made by \<^verbatim>\<open>t\<close> (its literal strings, its
  slots and its \<^verbatim>\<open>_k\<close>), or an array literal. Arrays are values here: the
  template layer never compares them by identity.
\<close>

datatype tval =
    Lit lit
  | Fn nat
  | Tpl "string list" "tval list" lit
  | Arr "tval list"

fun truthy_lit :: "lit \<Rightarrow> bool" where
  "truthy_lit Undefined = False"
| "truthy_lit Null = False"
| "truthy_lit (Bool b) = b"
| "truthy_lit (Num n) = (n \<noteq> 0)"
| "truthy_lit (Str s) = (s \<noteq> [])"

fun truthy :: "tval \<Rightarrow> bool" where
  "truthy (Lit v) = truthy_lit v"
| "truthy (Fn f) = True"
| "truthy (Tpl ss sl k) = True"
| "truthy (Arr xs) = True"

text \<open>\<^verbatim>\<open>typeof v === 'function'\<close>, \<^verbatim>\<open>isTpl\<close> and \<^verbatim>\<open>Array.isArray\<close>.\<close>

fun is_function :: "tval \<Rightarrow> bool" where
  "is_function (Fn f) = True"
| "is_function (Tpl ss sl k) = True"
| "is_function v = False"

fun isTpl :: "tval \<Rightarrow> bool" where
  "isTpl (Tpl ss sl k) = True"
| "isTpl v = False"

text \<open>Decimal notation of an integer, as the string conversion of a number.\<close>

definition digit :: "nat \<Rightarrow> char" where
  "digit n = ''0123456789'' ! (n mod 10)"

fun decimal :: "nat \<Rightarrow> string" where
  "decimal n = (if 10 \<le> n then decimal (n div 10) else []) @ [digit n]"

definition number_text :: "int \<Rightarrow> string" where
  "number_text i = (if 0 \<le> i then decimal (nat i) else CHR ''-'' # decimal (nat (- i)))"

text \<open>String conversion of a primitive, as \<^verbatim>\<open>html + expression\<close> performs it.\<close>

fun to_string :: "lit \<Rightarrow> string" where
  "to_string Undefined = ''undefined''"
| "to_string Null = ''null''"
| "to_string (Bool b) = (if b then ''true'' else ''false'')"
| "to_string (Num n) = number_text n"
| "to_string (Str s) = s"

section \<open>The template compiler \<^verbatim>\<open>t\<close>\<close>

text \<open>
  The two sentinels are the UTF-8 bytes of the source's delimiter and bookend
  strings.
\<close>

definition delimiter :: string where
  "delimiter = [CHR 0xE2, CHR 0x9E, CHR 0xB3, CHR 0xE2, CHR 0x9D, CHR 0x8D]"

definition bookend :: string where
  "bookend = [CHR 0xE2, CHR 0x9D, CHR 0x8D, CHR 0xE2, CHR 0x87, CHR 0x9A]"

definition delimiterComment :: string where
  "delimiterComment = ''<!--'' @ delimiter @ ''-->''"

definition bookendComment :: string where
  "bookendComment = ''<!--'' @ bookend @ ''-->''"

text \<open>
  An expression descriptor: \<^verbatim>\<open>e\<close> is the raw expression given to the
  compiler, \<^verbatim>\<open>expression\<close> the cell that \<^verbatim>\<open>_up\<close> overwrites, \<^verbatim>\<open>observer\<close> the
  callback installed by \<^verbatim>\<open>$on\<close> (\<open>None\<close> is the initial empty function).
\<close>

record descriptor =
  e :: tval
  expression :: tval
  observer :: "nat option"

definition new_descriptor :: "tval \<Rightarrow> descriptor" where
  "new_descriptor x = \<lparr> e = x, expression = x, observer = None \<rparr>"

text \<open>
  \<^verbatim>\<open>addExpressions(expression, html)\<close>; the closure's \<^verbatim>\<open>expressions\<close> array is
  the second component of the accumulator.
\<close>

fun addExpressions :: "tval \<Rightarrow> string \<times> descriptor list \<Rightarrow> string \<times> descriptor list" where
  "addExpressions (Fn f) (html, es) = (html @ delimiterComment, es @ [new_descriptor (Fn f)])"
| "addExpressions (Tpl ss sl k) (html, es) =
     (html @ delimiterComment, es @ [new_descriptor (Tpl ss sl k)])"
| "addExpressions (Arr xs) (html, es) = fold addExpressions xs (html, es)"
| "addExpressions (Lit v) (html, es) = (html @ to_string v, es)"

text \<open>
  The reducer \<^verbatim>\<open>interlaceTemplate\<close> run over \<^verbatim>\<open>strings\<close>: the slot of index
  \<open>i\<close> is looked at after the \<open>i\<close>-th string; a missing or undefined slot adds
  nothing.
\<close>

fun interlaceTemplate ::
  "string list \<Rightarrow> tval list \<Rightarrow> string \<times> descriptor list \<Rightarrow> string \<times> descriptor list" where
  "interlaceTemplate [] slots acc = acc"
| "interlaceTemplate (s # ss) [] (html, es) = interlaceTemplate ss [] (html @ s, es)"
| "interlaceTemplate (s # ss) (x # xs) (html, es) =
     interlaceTemplate ss xs
       (if x \<noteq> Lit Undefined then addExpressions x (html @ s, es) else (html @ s, es))"

text \<open>
  \<^verbatim>\<open>toString\<close> together with the \<^verbatim>\<open>expressions\<close> array it fills. The source
  memoises the markup in \<^verbatim>\<open>str\<close>; a second call recomputes only when the markup
  is empty, and then no descriptor is pushed, so the pair is a function of the
  strings and the slots.
\<close>

definition toString :: "string list \<Rightarrow> tval list \<Rightarrow> string \<times> descriptor list" where
  "toString strings expSlots =
     (if expSlots = [] \<and> strings = [[]] then (''<!---->'', [])
      else interlaceTemplate strings expSlots ([], []))"

text \<open>\<^verbatim>\<open>t(strings, ...expSlots)\<close> and \<^verbatim>\<open>template.key(k)\<close>.\<close>

definition t :: "string list \<Rightarrow> tval list \<Rightarrow> tval" where
  "t strings expSlots = Tpl strings expSlots (Num 0)"

fun with_key :: "tval \<Rightarrow> lit \<Rightarrow> tval" where
  "with_key (Tpl ss sl k) k' = Tpl ss sl k'"
| "with_key v k' = v"

text \<open>\<^verbatim>\<open>template._h()\<close>: markup, expressions and key.\<close>

fun h_of :: "tval \<Rightarrow> string \<times> descriptor list \<times> lit" where
  "h_of (Tpl ss sl k) = (fst (toString ss sl), snd (toString ss sl), k)"
| "h_of v = ([], [], Undefined)"

subsection \<open>The compiler as the specification words it\<close>

text \<open>
  Flattening of a slot value: arrays are expanded recursively, element by
  element, in order.
\<close>

fun flatten :: "tval \<Rightarrow> tval list" where
  "flatten (Arr xs) = concat (map flatten xs)"
| "flatten v = [v]"

fun piece :: "tval \<Rightarrow> string" where
  "piece (Lit v) = to_string v"
| "piece v = delimiterComment"

definition slot_markup :: "tval \<Rightarrow> string" where
  "slot_markup x = concat (map piece (flatten x))"

definition slot_expressions :: "tval \<Rightarrow> descriptor list" where
  "slot_expressions x = map new_descriptor (filter is_function (flatten x))"

text \<open>
  The specification's reading: every slot contributes its flattened pieces, a
  sentinel for a function and the literal text for anything else.
\<close>

fun spec_markup :: "string list \<Rightarrow> tval list \<Rightarrow> string" where
  "spec_markup [] slots = []"
| "spec_markup (s # ss) [] = s @ spec_markup ss []"
| "spec_markup (s # ss) (x # xs) = s @ slot_markup x @ spec_markup ss xs"

fun spec_expressions :: "string list \<Rightarrow> tval list \<Rightarrow> descriptor list" where
  "spec_expressions [] slots = []"
| "spec_expressions (s # ss) [] = []"
| "spec_expressions (s # ss) (x # xs) = slot_expressions x @ spec_expressions ss xs"

text \<open>The same with a top-level undefined slot contributing nothing.\<close>

definition defined_slots :: "tval list \<Rightarrow> tval list" where
  "defined_slots slots = map (\<lambda>x. if x = Lit Undefined then Arr [] else x) slots"

section \<open>Partials: chunks, nodes and the sibling list\<close>

datatype err = TypeError

datatype node_kind = TextNode | CommentNode | OtherNode

text \<open>
  A chunk object. Chunk objects and their \<^verbatim>\<open>dom\<close> arrays are shared by
  reference in the source (a keyed chunk lives in \<^verbatim>\<open>keyedChunks\<close>, \<^verbatim>\<open>chunks\<close>
  and \<^verbatim>\<open>previousChunks\<close> at once, and \<^verbatim>\<open>prev.dom !== chunk.dom\<close> compares
  arrays by identity), so both are kept in a store and named by address:
  \<open>c_dom\<close> is the address of the chunk's array of nodes.
\<close>

record chunk =
  c_html :: string
  c_exp :: "descriptor list"
  c_dom :: nat
  c_tpl :: tval
  c_key :: lit

text \<open>
  The store: chunk objects, node arrays, the nodes (kind, \<^verbatim>\<open>nodeValue\<close>, the
  render-group symbols defined on them), the child list of the parent the
  partial is mounted in (\<open>tree\<close>; a node outside it is detached), and the
  descriptors whose observer has been called, in call order.
\<close>

record world =
  chunk_at :: "nat \<Rightarrow> chunk"
  dom_at :: "nat \<Rightarrow> nat list"
  next_ref :: nat
  kind_of :: "nat \<Rightarrow> node_kind"
  nodeValue :: "nat \<Rightarrow> tval"
  tags_of :: "nat \<Rightarrow> nat set"
  next_node :: nat
  tree :: "nat list"
  observed :: "descriptor list"

text \<open>The closure variables of one \<^verbatim>\<open>createPartial\<close> call.\<close>

record partial =
  p_html :: string
  p_expressions :: "descriptor list"
  chunks :: "nat list"
  previousChunks :: "nat list"
  keyedChunks :: "(lit \<times> nat) list"
  toRemove :: "nat list"
  p_l :: nat
  p_group :: nat

definition createPartial :: "nat \<Rightarrow> partial" where
  "createPartial g =
     \<lparr> p_html = [], p_expressions = [], chunks = [], previousChunks = [],
       keyedChunks = [], toRemove = [], p_l = 0, p_group = g \<rparr>"

text \<open>
  \<^verbatim>\<open>expression._up(exp)\<close> run over a chunk's descriptors against the new
  descriptors: the cell is overwritten, then the observer is called. Reading
  \<^verbatim>\<open>.e\<close> of a missing new descriptor throws.
\<close>

fun rebind :: "descriptor list \<Rightarrow> descriptor list \<Rightarrow> world \<Rightarrow> err + (descriptor list \<times> world)" where
  "rebind [] ns w = Inr ([], w)"
| "rebind (d # ds) [] w = Inl TypeError"
| "rebind (d # ds) (n # ns) w =
     (let d' = d\<lparr> expression := e n \<rparr> in
      case rebind ds ns (w\<lparr> observed := observed w @ [d'] \<rparr>) of
        Inl x \<Rightarrow> Inl x
      | Inr (ds', w') \<Rightarrow> Inr (d' # ds', w'))"

text \<open>\<^verbatim>\<open>partial.add(tpl)\<close>.\<close>

definition add :: "tval \<Rightarrow> partial \<times> world \<Rightarrow> err + (partial \<times> world)" where
  "add tpl pw =
     (let p = fst pw; w = snd pw in
      if \<not> truthy tpl \<and> tpl \<noteq> Lit (Num 0) then Inr (p, w)
      else
        let template = (if isTpl tpl then fst (h_of tpl) else []);
            localExpressions = (if isTpl tpl then fst (snd (h_of tpl)) else []);
            key = (if isTpl tpl then snd (snd (h_of tpl)) else Undefined);
            keyedChunk = (if truthy_lit key then map_of (keyedChunks p) key else None);
            p' = p\<lparr> p_html := p_html p @ template @ bookendComment,
                    p_expressions := p_expressions p @ localExpressions,
                    p_l := Suc (p_l p) \<rparr>
        in case keyedChunk of
             None \<Rightarrow>
               let a = next_ref w;
                   w' = w\<lparr> chunk_at := (chunk_at w)
                             (a := \<lparr> c_html = template, c_exp = localExpressions,
                                     c_dom = Suc a, c_tpl = tpl, c_key = key \<rparr>),
                           dom_at := (dom_at w)(Suc a := []),
                           next_ref := a + 2 \<rparr>
               in Inr (p'\<lparr> chunks := chunks p @ [a],
                           keyedChunks := (if truthy_lit key then keyedChunks p @ [(key, a)]
                                           else keyedChunks p) \<rparr>, w')
           | Some a \<Rightarrow>
               (case rebind (c_exp (chunk_at w a)) localExpressions w of
                  Inl x \<Rightarrow> Inl x
                | Inr (es, w') \<Rightarrow>
                    Inr (p'\<lparr> chunks := chunks p @ [a] \<rparr>,
                         w'\<lparr> chunk_at := (chunk_at w')
                               (a := (chunk_at w' a)\<lparr> c_exp := es \<rparr>) \<rparr>)))"

text \<open>\<^verbatim>\<open>reset\<close> and \<^verbatim>\<open>addPlaceholderChunk(node)\<close>.\<close>

definition reset :: "partial \<Rightarrow> partial" where
  "reset p =
     p\<lparr> toRemove := [], p_html := [], p_l := 0, p_expressions := [],
        previousChunks := chunks p, chunks := [] \<rparr>"

definition addPlaceholderChunk :: "nat option \<Rightarrow> partial \<Rightarrow> world \<Rightarrow> partial \<times> world" where
  "addPlaceholderChunk node p w =
     (let a = next_ref w in
      (p\<lparr> p_html := ''<!---->'', chunks := chunks p @ [a] \<rparr>,
       w\<lparr> chunk_at := (chunk_at w)
             (a := \<lparr> c_html = ''<!---->'', c_exp = [], c_dom = Suc a,
                     c_tpl = t [[], []] [Lit (Str ''<!---->'')], c_key = Num 0 \<rparr>),
           dom_at := (dom_at w)(Suc a := (case node of None \<Rightarrow> [] | Some n \<Rightarrow> [n])),
           next_ref := a + 2 \<rparr>))"


section \<open>Rendering a partial\<close>

subsection \<open>The sibling list\<close>

text \<open>
  \<^verbatim>\<open>node.nextSibling\<close>, and the siblings after and before a node. A detached
  node has none.
\<close>

definition following :: "nat \<Rightarrow> nat list \<Rightarrow> nat list" where
  "following n xs = tl (dropWhile (\<lambda>m. m \<noteq> n) xs)"

definition preceding :: "nat \<Rightarrow> nat list \<Rightarrow> nat list" where
  "preceding n xs = takeWhile (\<lambda>m. m \<noteq> n) xs"

definition nextSibling :: "nat \<Rightarrow> nat list \<Rightarrow> nat option" where
  "nextSibling n xs = (case following n xs of [] \<Rightarrow> None | m # ms \<Rightarrow> Some m)"

text \<open>Insertion of nodes before a reference child (\<open>None\<close> appends).\<close>

definition insert_before :: "nat option \<Rightarrow> nat list \<Rightarrow> nat list \<Rightarrow> nat list" where
  "insert_before ref nodes xs =
     (case ref of
        None \<Rightarrow> xs @ nodes
      | Some r \<Rightarrow> takeWhile (\<lambda>m. m \<noteq> r) xs @ nodes @ dropWhile (\<lambda>m. m \<noteq> r) xs)"

text \<open>
  \<^verbatim>\<open>this.after(...nodes)\<close> and \<^verbatim>\<open>this.before(...nodes)\<close> of the DOM standard:
  nothing happens when \<^verbatim>\<open>this\<close> has no parent; otherwise the nodes leave their
  old places and enter next to the nearest sibling of \<^verbatim>\<open>this\<close> that is not
  among them.
\<close>

definition dom_after :: "nat \<Rightarrow> nat list \<Rightarrow> nat list \<Rightarrow> nat list" where
  "dom_after this nodes xs =
     (if this \<notin> set xs then xs
      else insert_before (find (\<lambda>m. m \<notin> set nodes) (following this xs)) nodes
             (filter (\<lambda>m. m \<notin> set nodes) xs))"

definition dom_before :: "nat \<Rightarrow> nat list \<Rightarrow> nat list \<Rightarrow> nat list" where
  "dom_before this nodes xs =
     (if this \<notin> set xs then xs
      else
        let rest = filter (\<lambda>m. m \<notin> set nodes) xs;
            ref = (case find (\<lambda>m. m \<notin> set nodes) (rev (preceding this xs)) of
                     None \<Rightarrow> (case rest of [] \<Rightarrow> None | m # ms \<Rightarrow> Some m)
                   | Some v \<Rightarrow> nextSibling v rest)
        in insert_before ref nodes rest)"

text \<open>\<^verbatim>\<open>removeNodes\<close>: every node of the list leaves the tree.\<close>

definition removeNodes :: "nat list \<Rightarrow> world \<Rightarrow> world" where
  "removeNodes ns w = w\<lparr> tree := filter (\<lambda>m. m \<notin> set ns) (tree w) \<rparr>"

subsection \<open>\<^verbatim>\<open>partial()\<close>\<close>

text \<open>
  The accumulated markup cut at the bookend comments, as \<^verbatim>\<open>assignDomChunks\<close>
  cuts the parsed nodes: the \<open>i\<close>-th piece holds the markup of the \<open>i\<close>-th
  chunk.
\<close>

function segments :: "string \<Rightarrow> string \<Rightarrow> string list" where
  "segments acc [] = [acc]"
| "segments acc (c # cs) =
     (if take (length bookendComment) (c # cs) = bookendComment
      then acc # segments [] (drop (length bookendComment) (c # cs))
      else segments (acc @ [c]) cs)"
  by pat_completeness auto
termination
  by (relation "measure (\<lambda>(acc, s). length s)") (auto simp: bookendComment_def)

text \<open>
  Fresh nodes of the given kinds, each carrying the render-group symbol \<open>g\<close>
  (\<^verbatim>\<open>Object.defineProperty(node, group, ...)\<close>).
\<close>

fun create_nodes :: "node_kind list \<Rightarrow> nat \<Rightarrow> world \<Rightarrow> nat list \<times> world" where
  "create_nodes [] g w = ([], w)"
| "create_nodes (k # ks) g w =
     (let n = next_node w;
          r = create_nodes ks g
                (w\<lparr> kind_of := (kind_of w)(n := k),
                    nodeValue := (nodeValue w)(n := Lit Null),
                    tags_of := (tags_of w)(n := {g}),
                    next_node := Suc n \<rparr>)
      in (n # fst r, snd r))"

text \<open>
  \<^verbatim>\<open>assignDomChunks(fragment(createNodes(html), expressions)())\<close>. What a piece
  of markup parses to is a parameter: \<open>tops s\<close> lists the kinds of the
  top-level nodes that the markup \<open>s\<close> materialises to (the binding of the
  expressions inside it is not part of the sibling list). The nodes of the
  \<open>i\<close>-th piece are pushed onto the array of \<^verbatim>\<open>chunks[i]\<close>; a node with no
  chunk at its index throws.
\<close>

fun assignDomChunks ::
  "(string \<Rightarrow> node_kind list) \<Rightarrow> nat \<Rightarrow> nat list \<Rightarrow> nat \<Rightarrow> string list \<Rightarrow> world
     \<Rightarrow> err + (nat list \<times> world)" where
  "assignDomChunks tops g cs i [] w = Inr ([], w)"
| "assignDomChunks tops g cs i (s # ss) w =
     (if tops s = [] then assignDomChunks tops g cs (Suc i) ss w
      else if length cs \<le> i then Inl TypeError
      else
        let r = create_nodes (tops s) g w;
            d = c_dom (chunk_at (snd r) (cs ! i));
            w' = (snd r)\<lparr> dom_at := (dom_at (snd r))(d := dom_at (snd r) d @ fst r) \<rparr>
        in case assignDomChunks tops g cs (Suc i) ss w' of
             Inl x \<Rightarrow> Inl x
           | Inr (ms, w'') \<Rightarrow> Inr (fst r @ ms, w''))"

text \<open>
  What \<^verbatim>\<open>partial()\<close> returns: one text node, or a document fragment with its
  children.
\<close>

datatype rendered = One nat | Frag "nat list"

fun frag_nodes :: "rendered \<Rightarrow> nat list" where
  "frag_nodes (One n) = [n]"
| "frag_nodes (Frag ns) = ns"

text \<open>\<^verbatim>\<open>frag.lastChild\<close>: a text node has no children.\<close>

fun lastChild :: "rendered \<Rightarrow> nat option" where
  "lastChild (One n) = None"
| "lastChild (Frag ns) = (if ns = [] then None else Some (last ns))"

definition render ::
  "(string \<Rightarrow> node_kind list) \<Rightarrow> partial \<Rightarrow> world \<Rightarrow> err + (rendered \<times> partial \<times> world)" where
  "render tops p w =
     (let pw = (if chunks p = [] then addPlaceholderChunk None p w else (p, w));
          p1 = fst pw; w1 = snd pw
      in if length (chunks p1) = 1 \<and> \<not> isTpl (c_tpl (chunk_at w1 (hd (chunks p1)))) then
           let ch = chunk_at w1 (hd (chunks p1)) in
           (case dom_at w1 (c_dom ch) of
              [] \<Rightarrow>
                let n = next_node w1 in
                Inr (One n, reset p1,
                     w1\<lparr> kind_of := (kind_of w1)(n := TextNode),
                         nodeValue := (nodeValue w1)(n := c_tpl ch),
                         tags_of := (tags_of w1)(n := {}),
                         next_node := Suc n,
                         dom_at := (dom_at w1)(c_dom ch := [n]) \<rparr>)
            | n # ns \<Rightarrow>
                Inr (One n, reset p1, w1\<lparr> nodeValue := (nodeValue w1)(n := c_tpl ch) \<rparr>))
         else
           (case assignDomChunks tops (p_group p1) (chunks p1) 0 (segments [] (p_html p1)) w1 of
              Inl x \<Rightarrow> Inl x
            | Inr (ns, w2) \<Rightarrow> Inr (Frag ns, reset p1, w2)))"

section \<open>Reconciliation: \<^verbatim>\<open>partial._up\<close>\<close>

text \<open>The variables of one \<^verbatim>\<open>_up\<close> call.\<close>

record up_state =
  u_main :: partial
  u_sub :: partial
  startChunking :: nat
  lastNode :: "nat option"
  u_world :: world

text \<open>\<^verbatim>\<open>transferChunks(partialA, chunksB, chunkIndex)\<close>.\<close>

fun transferChunks :: "nat list \<Rightarrow> nat list \<Rightarrow> nat \<Rightarrow> world \<Rightarrow> err + world" where
  "transferChunks [] cb i w = Inr w"
| "transferChunks (a # as) cb i w =
     (if i < length cb then
        transferChunks as cb (Suc i)
          (w\<lparr> chunk_at := (chunk_at w)
                (cb ! i := (chunk_at w (cb ! i))\<lparr> c_dom := c_dom (chunk_at w a) \<rparr>) \<rparr>)
      else Inl TypeError)"

definition closeSubPartial :: "(string \<Rightarrow> node_kind list) \<Rightarrow> up_state \<Rightarrow> err + up_state" where
  "closeSubPartial tops st =
     (if p_l (u_sub st) = 0 then Inr st
      else
        case render tops (u_sub st) (u_world st) of
          Inl x \<Rightarrow> Inl x
        | Inr (frag, sub', w1) \<Rightarrow>
            (case lastNode st of
               None \<Rightarrow> Inl TypeError
             | Some ln \<Rightarrow>
                 let w2 = w1\<lparr> tree :=
                            (if startChunking st \<noteq> 0 then dom_after ln (frag_nodes frag) (tree w1)
                             else dom_before ln (frag_nodes frag) (tree w1)) \<rparr>
                 in case transferChunks (previousChunks sub') (chunks (u_main st))
                           (startChunking st) w2 of
                      Inl x \<Rightarrow> Inl x
                    | Inr w3 \<Rightarrow>
                        Inr (st\<lparr> u_sub := sub', lastNode := lastChild frag, u_world := w3 \<rparr>)))"

text \<open>\<^verbatim>\<open>isTextNodeChunk\<close> and the last node of a chunk's array.\<close>

definition isTextNodeChunk :: "world \<Rightarrow> chunk \<Rightarrow> bool" where
  "isTextNodeChunk w ch = (length (dom_at w (c_dom ch)) = 1 \<and> \<not> isTpl (c_tpl ch))"

definition last_of :: "nat list \<Rightarrow> nat option" where
  "last_of ns = (if ns = [] then None else Some (last ns))"

text \<open>The three branches of the loop body, each on the state it is entered in.\<close>

definition keyed_branch ::
  "(string \<Rightarrow> node_kind list) \<Rightarrow> nat \<Rightarrow> nat \<Rightarrow> nat option \<Rightarrow> up_state \<Rightarrow> err + up_state" where
  "keyed_branch tops index c prev st =
     (case closeSubPartial tops st of
        Inl x \<Rightarrow> Inl x
      | Inr st1 \<Rightarrow>
          let w = u_world st1;
              nodes = dom_at w (c_dom (chunk_at w c));
              moved = (case prev of
                         None \<Rightarrow> True
                       | Some pr \<Rightarrow> c_dom (chunk_at w pr) \<noteq> c_dom (chunk_at w c))
          in if moved \<and> lastNode st1 = None then Inl TypeError
             else
               Inr (st1\<lparr> lastNode := last_of nodes,
                         u_world :=
                           (if moved then
                              w\<lparr> tree := (if index \<noteq> 0
                                           then dom_after (the (lastNode st1)) nodes (tree w)
                                           else dom_before (the (lastNode st1)) nodes (tree w)) \<rparr>
                            else w) \<rparr>))"

definition reuse_branch ::
  "(string \<Rightarrow> node_kind list) \<Rightarrow> nat \<Rightarrow> nat \<Rightarrow> up_state \<Rightarrow> err + up_state" where
  "reuse_branch tops c pr st =
     (case closeSubPartial tops st of
        Inl x \<Rightarrow> Inl x
      | Inr st1 \<Rightarrow>
          let w = u_world st1 in
          (case rebind (c_exp (chunk_at w pr)) (c_exp (chunk_at w c)) w of
             Inl x \<Rightarrow> Inl x
           | Inr (es, w1) \<Rightarrow>
               let w2 = w1\<lparr> chunk_at := (chunk_at w1)(pr := (chunk_at w1 pr)\<lparr> c_exp := es \<rparr>) \<rparr>;
                   w3 = w2\<lparr> chunk_at := (chunk_at w2)
                              (c := (chunk_at w2 c)\<lparr> c_exp := c_exp (chunk_at w2 pr),
                                                     c_dom := c_dom (chunk_at w2 pr) \<rparr>) \<rparr>;
                   ln = last_of (dom_at w3 (c_dom (chunk_at w3 c)))
               in Inr (st1\<lparr> lastNode := ln,
                            u_world :=
                              (if isTextNodeChunk w3 (chunk_at w3 c) \<and> ln \<noteq> None
                                  \<and> kind_of w3 (the ln) = TextNode
                               then w3\<lparr> nodeValue := (nodeValue w3)(the ln := c_tpl (chunk_at w3 c)) \<rparr>
                               else w3) \<rparr>)))"

definition rebuild_branch :: "nat \<Rightarrow> nat \<Rightarrow> nat option \<Rightarrow> up_state \<Rightarrow> err + up_state" where
  "rebuild_branch index c prev st =
     (let w = u_world st;
          main' = (case prev of
                     None \<Rightarrow> u_main st
                   | Some pr \<Rightarrow>
                       if c_html (chunk_at w c) \<noteq> c_html (chunk_at w pr)
                          \<and> \<not> truthy_lit (c_key (chunk_at w pr))
                       then (u_main st)\<lparr> toRemove := toRemove (u_main st)
                                                      @ dom_at w (c_dom (chunk_at w pr)) \<rparr>
                       else u_main st);
          start' = (if p_l (u_sub st) = 0 then index else startChunking st)
      in case add (c_tpl (chunk_at w c)) (u_sub st, w) of
           Inl x \<Rightarrow> Inl x
         | Inr (sub', w') \<Rightarrow>
             Inr (st\<lparr> u_main := main', u_sub := sub', startChunking := start', u_world := w' \<rparr>))"

text \<open>
  The body of \<^verbatim>\<open>chunks.forEach((chunk, index) => ...)\<close>: the previous chunk is
  the one of the same index, and the three tests are made in the source's order.
\<close>

definition up_chunk ::
  "(string \<Rightarrow> node_kind list) \<Rightarrow> nat \<Rightarrow> nat \<Rightarrow> up_state \<Rightarrow> err + up_state" where
  "up_chunk tops index c st =
     (let w = u_world st;
          prevs = previousChunks (u_main st);
          prev = (if index < length prevs then Some (prevs ! index) else None)
      in if truthy_lit (c_key (chunk_at w c)) \<and> dom_at w (c_dom (chunk_at w c)) \<noteq> [] then
           keyed_branch tops index c prev st
         else if prev \<noteq> None
                 \<and> c_html (chunk_at w c) = c_html (chunk_at w (the prev))
                 \<and> \<not> truthy_lit (c_key (chunk_at w (the prev))) then
           reuse_branch tops c (the prev) st
         else rebuild_branch index c prev st)"

fun up_loop ::
  "(string \<Rightarrow> node_kind list) \<Rightarrow> nat \<Rightarrow> nat list \<Rightarrow> up_state \<Rightarrow> err + up_state" where
  "up_loop tops index [] st = Inr st"
| "up_loop tops index (c # cs) st =
     (case up_chunk tops index c st of
        Inl x \<Rightarrow> Inl x
      | Inr st' \<Rightarrow> up_loop tops (Suc index) cs st')"

text \<open>
  The walk over the siblings after the cursor: the nodes collected by
  \<^verbatim>\<open>while (node && group in node)\<close>. With no cursor there is no walk.
\<close>

definition trailing :: "nat \<Rightarrow> nat option \<Rightarrow> world \<Rightarrow> nat list" where
  "trailing g ln w =
     (case ln of
        None \<Rightarrow> []
      | Some n \<Rightarrow> takeWhile (\<lambda>m. g \<in> tags_of w m) (following n (tree w)))"

text \<open>
  \<^verbatim>\<open>partial._up()\<close>: the state the loop starts in (the cursor is the first
  node of the first previous chunk; an empty update gets a placeholder chunk
  around a fresh comment node), the loop, the last \<^verbatim>\<open>closeSubPartial()\<close>, and
  the trimming of the siblings that follow the cursor.
\<close>

definition up_init :: "partial \<Rightarrow> world \<Rightarrow> err + up_state" where
  "up_init p w =
     (case previousChunks p of
        [] \<Rightarrow> Inl TypeError
      | c0 # cs0 \<Rightarrow>
          let ln0 = (case dom_at w (c_dom (chunk_at w c0)) of [] \<Rightarrow> None | n # ns \<Rightarrow> Some n);
              pw = (if chunks p = [] then
                      addPlaceholderChunk (Some (next_node w)) p
                        (w\<lparr> kind_of := (kind_of w)(next_node w := CommentNode),
                            nodeValue := (nodeValue w)(next_node w := Lit (Str [])),
                            tags_of := (tags_of w)(next_node w := {}),
                            next_node := Suc (next_node w) \<rparr>)
                    else (p, w))
          in Inr \<lparr> u_main = fst pw, u_sub = createPartial (p_group p), startChunking = 0,
                   lastNode = ln0, u_world = snd pw \<rparr>)"

definition up_finish :: "up_state \<Rightarrow> partial \<times> world" where
  "up_finish st =
     (reset (u_main st),
      removeNodes
        (toRemove (u_main st) @ trailing (p_group (u_main st)) (lastNode st) (u_world st))
        (u_world st))"

definition up :: "(string \<Rightarrow> node_kind list) \<Rightarrow> partial \<Rightarrow> world \<Rightarrow> err + (partial \<times> world)" where
  "up tops p w =
     (case up_init p w of
        Inl x \<Rightarrow> Inl x
      | Inr st0 \<Rightarrow>
          (case up_loop tops 0 (chunks (u_main st0)) st0 of
             Inl x \<Rightarrow> Inl x
           | Inr st1 \<Rightarrow>
               (case closeSubPartial tops st1 of
                  Inl x \<Rightarrow> Inl x
                | Inr st2 \<Rightarrow> Inr (up_finish st2))))"

text \<open>\<^verbatim>\<open>setNode(value, p)\<close> on an existing partial: add the value, then patch.\<close>

fun add_all :: "tval list \<Rightarrow> partial \<times> world \<Rightarrow> err + (partial \<times> world)" where
  "add_all [] pw = Inr pw"
| "add_all (x # xs) pw = (case add x pw of Inl y \<Rightarrow> Inl y | Inr pw' \<Rightarrow> add_all xs pw')"

definition setNode ::
  "(string \<Rightarrow> node_kind list) \<Rightarrow> tval \<Rightarrow> partial \<Rightarrow> world \<Rightarrow> err + (partial \<times> world)" where
  "setNode tops v p w =
     (case (case v of Arr xs \<Rightarrow> add_all xs (p, w) | _ \<Rightarrow> add v (p, w)) of
        Inl x \<Rightarrow> Inl x
      | Inr (p', w') \<Rightarrow> up tops p' w')"


section \<open>The observable data layer\<close>

text \<open>
  Values of the reactive layer: a primitive, a function, or a reference to an
  object that has an identity (a plain object or array, or a reactive proxy).
  \<^verbatim>\<open>old !== value\<close> is inequality of these values.
\<close>

datatype val = Prim lit | Func nat | Ref nat

text \<open>
  The functions that are registered as observers: the queued callback
  \<^verbatim>\<open>queue(callFn)\<close> of a watch, or a function of the caller's own.
\<close>

datatype callback = Queued nat | External nat

text \<open>
  The two maps of one \<^verbatim>\<open>r()\<close> closure, \<^verbatim>\<open>observers\<close> and
  \<^verbatim>\<open>observerProperties\<close>, in insertion order. A state transfer hands the maps
  of the old proxy to the new one, so they are stored apart from the proxies and
  named by address.
\<close>

record registry =
  observers :: "(string \<times> callback list) list"
  observerProperties :: "(callback \<times> string list) list"

text \<open>
  The closure of one proxy: the properties of \<^verbatim>\<open>proxySource\<close>, \<^verbatim>\<open>isArray\<close>,
  the address of its maps, and the parent link \<^verbatim>\<open>_p\<close>. Data objects are object
  literals: all properties are own, enumerable and writable. The \<^verbatim>\<open>length\<close> of
  an array and the array methods are not modelled.
\<close>

record proxy =
  source :: "(string \<times> val) list"
  isArray :: bool
  registry_of :: nat
  parent :: "(string \<times> nat) option"

datatype cell = Plain bool "(string \<times> val) list" | Proxy proxy

text \<open>
  What the trace records: a callback called with \<^verbatim>\<open>(newValue, oldValue)\<close>, the
  expression of a watch evaluated to a value, a next-tick function run.
\<close>

datatype event = Notified callback val val | Evaluated nat val | Ticked nat

text \<open>
  The reactive state: the objects, the observer maps, \<^verbatim>\<open>dependencyCollector\<close>
  (tracking id to proxy to properties), \<^verbatim>\<open>queueStack\<close>, \<^verbatim>\<open>nextTicks\<close>, the
  pending \<^verbatim>\<open>setTimeout(executeQueue)\<close> calls with the arguments their closure
  holds, and \<^verbatim>\<open>currentDeps\<close> of every watch. The tracking symbol of a watch is
  its number.
\<close>

record rstate =
  heap :: "nat \<Rightarrow> cell option"
  regs :: "nat \<Rightarrow> registry"
  next_addr :: nat
  collector :: "(nat \<times> (nat \<times> string list) list) list"
  queueStack :: "nat list"
  nextTicks :: "nat list"
  timers :: "(val \<times> val) list"
  currentDeps :: "nat \<Rightarrow> (nat \<times> string list) list"
  next_watch :: nat
  trace :: "event list"

subsection \<open>Sets and maps in insertion order\<close>

definition set_add :: "'a \<Rightarrow> 'a list \<Rightarrow> 'a list" where
  "set_add x xs = (if x \<in> set xs then xs else xs @ [x])"

definition set_delete :: "'a \<Rightarrow> 'a list \<Rightarrow> 'a list" where
  "set_delete x xs = filter (\<lambda>y. y \<noteq> x) xs"

fun map_set :: "'k \<Rightarrow> 'v \<Rightarrow> ('k \<times> 'v) list \<Rightarrow> ('k \<times> 'v) list" where
  "map_set k v [] = [(k, v)]"
| "map_set k v ((k', v') # kvs) = (if k' = k then (k, v) # kvs else (k', v') # map_set k v kvs)"

definition map_delete :: "'k \<Rightarrow> ('k \<times> 'v) list \<Rightarrow> ('k \<times> 'v) list" where
  "map_delete k kvs = filter (\<lambda>kv. fst kv \<noteq> k) kvs"

text \<open>The set stored under a key, empty when the key is absent.\<close>

definition members :: "('k \<times> 'v list) list \<Rightarrow> 'k \<Rightarrow> 'v list" where
  "members m k = (case map_of m k of None \<Rightarrow> [] | Some xs \<Rightarrow> xs)"

text \<open>\<^verbatim>\<open>Reflect.get\<close> on a property list: a missing property reads undefined.\<close>

definition lookup :: "(string \<times> val) list \<Rightarrow> string \<Rightarrow> val" where
  "lookup ps p = (case map_of ps p of None \<Rightarrow> Prim Undefined | Some v \<Rightarrow> v)"

subsection \<open>\<^verbatim>\<open>isR\<close> and the dependency props\<close>

fun truthy_val :: "val \<Rightarrow> bool" where
  "truthy_val (Prim v) = truthy_lit v"
| "truthy_val (Func f) = True"
| "truthy_val (Ref a) = True"

text \<open>\<^verbatim>\<open>typeof v === 'object'\<close>: true of null.\<close>

fun is_object :: "val \<Rightarrow> bool" where
  "is_object (Prim Null) = True"
| "is_object (Ref a) = True"
| "is_object v = False"

text \<open>
  \<^verbatim>\<open>isR\<close>: an object that is not null, has \<^verbatim>\<open>$on\<close> and whose \<^verbatim>\<open>$on\<close> is a
  function. A proxy answers both through its traps; a plain object has to own
  such a property.
\<close>

definition isR :: "rstate \<Rightarrow> val \<Rightarrow> bool" where
  "isR s v =
     (case v of
        Ref a \<Rightarrow>
          (case heap s a of
             Some (Proxy px) \<Rightarrow> True
           | Some (Plain arr ps) \<Rightarrow> (case map_of ps ''$on'' of Some (Func f) \<Rightarrow> True | _ \<Rightarrow> False)
           | None \<Rightarrow> False)
      | _ \<Rightarrow> False)"

definition depProps :: "string set" where
  "depProps = {''$on'', ''$off'', ''_em'', ''_st'', ''_p''}"

text \<open>\<^verbatim>\<open>dep('add')\<close> and \<^verbatim>\<open>dep('delete')\<close> on the maps of one closure.\<close>

definition dep_add :: "string \<Rightarrow> callback \<Rightarrow> registry \<Rightarrow> registry" where
  "dep_add p c g =
     \<lparr> observers = map_set p (set_add c (members (observers g) p)) (observers g),
       observerProperties =
         map_set c (set_add p (members (observerProperties g) c)) (observerProperties g) \<rparr>"

definition dep_delete :: "string \<Rightarrow> callback \<Rightarrow> registry \<Rightarrow> registry" where
  "dep_delete p c g =
     \<lparr> observers = map_set p (set_delete c (members (observers g) p)) (observers g),
       observerProperties =
         map_set c (set_delete p (members (observerProperties g) c)) (observerProperties g) \<rparr>"

text \<open>\<^verbatim>\<open>proxy.$on(p, c)\<close> and \<^verbatim>\<open>proxy.$off(p, c)\<close>.\<close>

definition on :: "nat \<Rightarrow> string \<Rightarrow> callback \<Rightarrow> rstate \<Rightarrow> rstate" where
  "on a p c s =
     (case heap s a of
        Some (Proxy px) \<Rightarrow>
          s\<lparr> regs := (regs s)(registry_of px := dep_add p c (regs s (registry_of px))) \<rparr>
      | _ \<Rightarrow> s)"

definition off :: "nat \<Rightarrow> string \<Rightarrow> callback \<Rightarrow> rstate \<Rightarrow> rstate" where
  "off a p c s =
     (case heap s a of
        Some (Proxy px) \<Rightarrow>
          s\<lparr> regs := (regs s)(registry_of px := dep_delete p c (regs s (registry_of px))) \<rparr>
      | _ \<Rightarrow> s)"

subsection \<open>The scheduler: \<^verbatim>\<open>queue\<close>\<close>

text \<open>
  The callback that \<^verbatim>\<open>queue(fn)\<close> returns, for the \<^verbatim>\<open>callFn\<close> of watch \<open>w\<close>: a
  flush is scheduled when the stack is empty, then the watch is added to the
  stack (a set).
\<close>

definition queued :: "nat \<Rightarrow> val \<Rightarrow> val \<Rightarrow> rstate \<Rightarrow> rstate" where
  "queued w newValue oldValue s =
     (let s' = (if queueStack s = [] then s\<lparr> timers := timers s @ [(newValue, oldValue)] \<rparr>
                else s)
      in s'\<lparr> queueStack := set_add w (queueStack s') \<rparr>)"

text \<open>A call of an observer: recorded, and run when it is a queued callback.\<close>

fun invoke :: "val \<Rightarrow> val \<Rightarrow> callback \<Rightarrow> rstate \<Rightarrow> rstate" where
  "invoke newValue oldValue (Queued w) s =
     queued w newValue oldValue
       (s\<lparr> trace := trace s @ [Notified (Queued w) newValue oldValue] \<rparr>)"
| "invoke newValue oldValue (External x) s =
     s\<lparr> trace := trace s @ [Notified (External x) newValue oldValue] \<rparr>"

text \<open>\<^verbatim>\<open>_em(property, newValue, oldValue)\<close> of the closure whose maps are at \<open>g\<close>.\<close>

definition em :: "nat \<Rightarrow> string \<Rightarrow> val \<Rightarrow> val \<Rightarrow> rstate \<Rightarrow> rstate" where
  "em g property newValue oldValue s =
     fold (invoke newValue oldValue) (members (observers (regs s g)) property) s"

subsection \<open>The proxy traps\<close>

text \<open>\<^verbatim>\<open>addDep(proxy, property)\<close>: every active tracker records the read.\<close>

definition track :: "nat \<Rightarrow> string \<Rightarrow> (nat \<times> string list) list \<Rightarrow> (nat \<times> string list) list" where
  "track a p deps = map_set a (set_add p (members deps a)) deps"

definition addDep :: "nat \<Rightarrow> string \<Rightarrow> rstate \<Rightarrow> rstate" where
  "addDep a p s = s\<lparr> collector := map (\<lambda>td. (fst td, track a p (snd td))) (collector s) \<rparr>"

text \<open>
  The \<^verbatim>\<open>get\<close> trap, and a read of a plain object. A dependency prop is
  returned without tracking; it is not data, and the model reads it as
  undefined.
\<close>

definition get_trap :: "nat \<Rightarrow> string \<Rightarrow> rstate \<Rightarrow> val \<times> rstate" where
  "get_trap a p s =
     (case heap s a of
        Some (Proxy px) \<Rightarrow>
          if p \<in> depProps then (Prim Undefined, s) else (lookup (source px) p, addDep a p s)
      | Some (Plain arr ps) \<Rightarrow> (lookup ps p, s)
      | None \<Rightarrow> (Prim Undefined, s))"

text \<open>
  The child loop at the end of \<^verbatim>\<open>r\<close>: \<^verbatim>\<open>proxy[c]._p = [c, proxy]\<close>. The read
  goes through the \<^verbatim>\<open>get\<close> trap of the new proxy; the write reaches the child's
  parent link when the child is a proxy, and adds an own property holding a new
  pair when the child is a plain object that passes \<^verbatim>\<open>isR\<close>.
\<close>

definition set_parent :: "nat \<Rightarrow> string \<Rightarrow> val \<Rightarrow> rstate \<Rightarrow> rstate" where
  "set_parent a c child s =
     (case child of
        Ref b \<Rightarrow>
          (case heap s b of
             Some (Proxy px) \<Rightarrow> s\<lparr> heap := (heap s)(b \<mapsto> Proxy (px\<lparr> parent := Some (c, a) \<rparr>)) \<rparr>
           | Some (Plain arr ps) \<Rightarrow>
               s\<lparr> heap := (heap s)
                     (next_addr s \<mapsto> Plain True [(''0'', Prim (Str c)), (''1'', Ref a)],
                      b \<mapsto> Plain arr (map_set ''_p'' (Ref (next_addr s)) ps)),
                  next_addr := Suc (next_addr s) \<rparr>
           | None \<Rightarrow> s)
      | _ \<Rightarrow> s)"

fun link_children :: "nat \<Rightarrow> string list \<Rightarrow> rstate \<Rightarrow> rstate" where
  "link_children a [] s = s"
| "link_children a (c # cs) s =
     (let got = get_trap a c s in link_children a cs (set_parent a c (fst got) (snd got)))"

text \<open>
  The property loop of \<^verbatim>\<open>r\<close>: an entry that is an object and not null is
  wrapped unless it is reactive already, and its name is remembered as a child.
\<close>

fun wrap_entries ::
  "(val \<Rightarrow> rstate \<Rightarrow> (val \<times> rstate) option) \<Rightarrow> (string \<times> val) list \<Rightarrow> rstate
     \<Rightarrow> ((string \<times> val) list \<times> string list \<times> rstate) option" where
  "wrap_entries wrap [] s = Some ([], [], s)"
| "wrap_entries wrap ((property, entry) # rest) s =
     (if is_object entry \<and> entry \<noteq> Prim Null then
        (case (if \<not> isR s entry then wrap entry s else Some (entry, s)) of
           None \<Rightarrow> None
         | Some (v, s1) \<Rightarrow>
             (case wrap_entries wrap rest s1 of
                None \<Rightarrow> None
              | Some (src, children, s2) \<Rightarrow> Some ((property, v) # src, property # children, s2)))
      else
        (case wrap_entries wrap rest s of
           None \<Rightarrow> None
         | Some (src, children, s2) \<Rightarrow> Some ((property, entry) # src, children, s2)))"

text \<open>The enumerable properties of a data value that is an object; null has none.\<close>

definition data_props :: "rstate \<Rightarrow> val \<Rightarrow> (bool \<times> (string \<times> val) list) option" where
  "data_props s data =
     (case data of
        Prim Null \<Rightarrow> Some (False, [])
      | Ref a \<Rightarrow>
          (case heap s a of
             Some (Plain arr ps) \<Rightarrow> Some (arr, ps)
           | Some (Proxy px) \<Rightarrow> Some (isArray px, source px)
           | None \<Rightarrow> None)
      | _ \<Rightarrow> None)"

text \<open>
  \<^verbatim>\<open>r(data, state)\<close>, under its exported name \<^verbatim>\<open>reactive\<close>. The state argument gives the maps and the parent link
  to take over (\<^verbatim>\<open>state.o\<close> with \<^verbatim>\<open>state.op\<close>, and \<^verbatim>\<open>state.p\<close>). The recursion
  follows the object graph, which may be cyclic; the first argument bounds its
  depth, and \<open>None\<close> is a run that has not returned within the bound.
\<close>

fun reactive :: "nat \<Rightarrow> val \<Rightarrow> nat option \<times> (string \<times> nat) option \<Rightarrow> rstate \<Rightarrow> (val \<times> rstate) option" where
  "reactive 0 data state s = (if isR s data \<or> \<not> is_object data then Some (data, s) else None)"
| "reactive (Suc n) data state s =
     (if isR s data \<or> \<not> is_object data then Some (data, s)
      else
        case data_props s data of
          None \<Rightarrow> None
        | Some (arr, ps) \<Rightarrow>
            (case wrap_entries (\<lambda>v s'. reactive n v (None, None) s') ps s of
               None \<Rightarrow> None
             | Some (src, children, s1) \<Rightarrow>
                 let g = (case fst state of Some g' \<Rightarrow> g' | None \<Rightarrow> next_addr s1);
                     s2 = (case fst state of
                             Some g' \<Rightarrow> s1
                           | None \<Rightarrow>
                               s1\<lparr> regs := (regs s1)
                                      (g := \<lparr> observers = [], observerProperties = [] \<rparr>),
                                   next_addr := Suc (next_addr s1) \<rparr>);
                     a = next_addr s2;
                     s3 = s2\<lparr> heap := (heap s2)
                                (a \<mapsto> Proxy \<lparr> source = src, isArray = arr, registry_of = g,
                                               parent = snd state \<rparr>),
                             next_addr := Suc a \<rparr>
                 in Some (Ref a, link_children a children s3)))"

text \<open>
  \<^verbatim>\<open>reactiveMerge(reactiveTarget, reactiveSource)\<close> for a target that is a
  proxy: every observer of the source is added to the target, and the source's
  parent link, if any, becomes the target's.
\<close>

definition reactiveMerge :: "nat \<Rightarrow> nat \<Rightarrow> rstate \<Rightarrow> rstate" where
  "reactiveMerge target src s =
     (case heap s src of
        Some (Proxy po) \<Rightarrow>
          let s1 = fold (\<lambda>pc s'. fold (\<lambda>c. on target (fst pc) c) (snd pc) s')
                     (observers (regs s (registry_of po))) s
          in (case (parent po, heap s1 target) of
                (Some pl, Some (Proxy pt)) \<Rightarrow>
                  s1\<lparr> heap := (heap s1)(target \<mapsto> Proxy (pt\<lparr> parent := Some pl \<rparr>)) \<rparr>
              | _ \<Rightarrow> s1)
      | _ \<Rightarrow> s)"

text \<open>
  The plain branch of the \<^verbatim>\<open>set\<close> trap: the write is applied; the observers of
  the property are called with \<^verbatim>\<open>(value, old)\<close> when the two differ; the parent,
  if there is one, emits at the name it holds this proxy under, with itself as
  the new value.
\<close>

definition plain_write :: "nat \<Rightarrow> proxy \<Rightarrow> string \<Rightarrow> val \<Rightarrow> rstate \<Rightarrow> rstate" where
  "plain_write a px property v s =
     (let old = lookup (source px) property;
          s1 = s\<lparr> heap := (heap s)(a \<mapsto> Proxy (px\<lparr> source := map_set property v (source px) \<rparr>)) \<rparr>;
          s2 = (if old \<noteq> v then em (registry_of px) property v old s1 else s1)
      in case parent px of
           None \<Rightarrow> s2
         | Some (name, pa) \<Rightarrow>
             (case heap s2 pa of
                Some (Proxy pp) \<Rightarrow> em (registry_of pp) name (Ref pa) (Prim Undefined) s2
              | _ \<Rightarrow> s2))"

text \<open>
  The state-transfer branch: the old value is a proxy and the new value is
  truthy. The new value is merged into (when reactive) or wrapped with the old
  proxy's maps and parent link; the property is set and emitted; then every
  observed property of the old proxy whose value differs is emitted on the old
  proxy. Reading a property of a new value that is a primitive throws; a
  function has no data properties.
\<close>

fun transfer_emit :: "nat \<Rightarrow> nat \<Rightarrow> val \<Rightarrow> string list \<Rightarrow> rstate \<Rightarrow> err + rstate" where
  "transfer_emit g old newR [] s = Inr s"
| "transfer_emit g old newR (p # ps) s =
     (let ro = get_trap old p s in
      case newR of
        Prim v \<Rightarrow> Inl TypeError
      | Func f \<Rightarrow>
          transfer_emit g old newR ps
            (if fst ro \<noteq> Prim Undefined then em g p (Prim Undefined) (fst ro) (snd ro)
             else snd ro)
      | Ref b \<Rightarrow>
          (let rn = get_trap b p (snd ro)
           in transfer_emit g old newR ps
                (if fst ro \<noteq> fst rn then em g p (fst rn) (fst ro) (snd rn) else snd rn)))"

definition state_transfer ::
  "nat \<Rightarrow> nat \<Rightarrow> proxy \<Rightarrow> string \<Rightarrow> val \<Rightarrow> nat \<Rightarrow> rstate \<Rightarrow> (err + rstate) option" where
  "state_transfer n a px property v old s =
     (case heap s old of
        Some (Proxy po) \<Rightarrow>
          (case (if isR s v
                 then (case v of
                         Ref b \<Rightarrow> Some (v, reactiveMerge b old s)
                       | _ \<Rightarrow> Some (v, s))
                 else reactive n v (Some (registry_of po), parent po) s) of
             None \<Rightarrow> None
           | Some (newR, s1) \<Rightarrow>
               let s2 = s1\<lparr> heap := (heap s1)
                          (a \<mapsto> Proxy ((case heap s1 a of Some (Proxy px') \<Rightarrow> px' | _ \<Rightarrow> px)
                                          \<lparr> source := map_set property newR
                                               (source (case heap s1 a of
                                                          Some (Proxy px') \<Rightarrow> px' | _ \<Rightarrow> px)) \<rparr>)) \<rparr>;
                   s3 = em (registry_of px) property newR (Prim Undefined) s2
               in Some (transfer_emit (registry_of po) old newR
                          (map fst (observers (regs s3 (registry_of po)))) s3))
      | _ \<Rightarrow> Some (Inl TypeError))"

text \<open>
  The \<^verbatim>\<open>set\<close> trap of the proxy at \<open>a\<close>. A write to a dependency prop goes to
  the closure and not to the data; the model leaves the state as it is. A
  write to a plain object is an ordinary write.
\<close>

definition set_trap :: "nat \<Rightarrow> nat \<Rightarrow> string \<Rightarrow> val \<Rightarrow> rstate \<Rightarrow> (err + rstate) option" where
  "set_trap n a property v s =
     (case heap s a of
        Some (Proxy px) \<Rightarrow>
          if property \<in> depProps then Some (Inr s)
          else if truthy_val v \<and> isR s (lookup (source px) property) then
            (case lookup (source px) property of
               Ref old \<Rightarrow> state_transfer n a px property v old s
             | _ \<Rightarrow> Some (Inl TypeError))
          else Some (Inr (plain_write a px property v s))
      | Some (Plain arr ps) \<Rightarrow>
          Some (Inr (s\<lparr> heap := (heap s)(a \<mapsto> Plain arr (map_set property v ps)) \<rparr>))
      | None \<Rightarrow> Some (Inl TypeError))"

section \<open>Watches\<close>

text \<open>
  The expression of a watch is a function that reads properties and returns a
  value: a tree of reads, each continuing with the value read.
\<close>

datatype expr = Ret val | Get nat string "val \<Rightarrow> expr"

primrec run :: "expr \<Rightarrow> rstate \<Rightarrow> val \<times> rstate" where
  "run (Ret v) s = (v, s)"
| "run (Get a p k) s = (case get_trap a p s of (v, s') \<Rightarrow> run (k v) s')"

text \<open>
  The code of a watch: \<^verbatim>\<open>fn\<close>, and \<^verbatim>\<open>after\<close> when given. The post-processing
  step is any function of the value and the state.
\<close>

record wcode =
  fn :: expr
  after :: "(val \<Rightarrow> rstate \<Rightarrow> val \<times> rstate) option"

text \<open>
  The first loop of \<^verbatim>\<open>callFn\<close>: for every proxy of \<^verbatim>\<open>currentDeps\<close>, the
  properties that the new dependencies of the proxy do not hold are unobserved.
\<close>

fun unobserve :: "callback \<Rightarrow> (nat \<times> string list) list \<Rightarrow> (nat \<times> string list) list \<Rightarrow> rstate \<Rightarrow> rstate" where
  "unobserve c newDeps [] s = s"
| "unobserve c newDeps ((a, ps) # rest) s =
     unobserve c newDeps rest
       (fold (\<lambda>p. off a p c) (filter (\<lambda>p. p \<notin> set (members newDeps a)) ps) s)"

text \<open>The second loop: every property of the new dependencies is observed.\<close>

fun observe :: "callback \<Rightarrow> (nat \<times> string list) list \<Rightarrow> rstate \<Rightarrow> rstate" where
  "observe c [] s = s"
| "observe c ((a, ps) # rest) s = observe c rest (fold (\<lambda>p. on a p c) ps s)"

text \<open>
  \<^verbatim>\<open>callFn\<close> up to the assignment of \<^verbatim>\<open>currentDeps\<close>: a fresh tracker, the
  evaluation, the two loops.
\<close>

definition callFn_track :: "(nat \<Rightarrow> wcode) \<Rightarrow> nat \<Rightarrow> rstate \<Rightarrow> val \<times> rstate" where
  "callFn_track code w s =
     (let s1 = s\<lparr> collector := map_set w [] (collector s) \<rparr>;
          res = run (fn (code w)) s1;
          s2 = (snd res)\<lparr> trace := trace (snd res) @ [Evaluated w (fst res)] \<rparr>;
          newDeps = members (collector s2) w;
          s3 = s2\<lparr> collector := map_delete w (collector s2) \<rparr>;
          s4 = unobserve (Queued w) newDeps (currentDeps s3 w) s3;
          s5 = observe (Queued w) newDeps s4
      in (fst res, s5\<lparr> currentDeps := (currentDeps s5)(w := newDeps) \<rparr>))"

text \<open>\<^verbatim>\<open>callFn\<close>: \<^verbatim>\<open>return after ? after(value) : value\<close> comes last.\<close>

definition callFn :: "(nat \<Rightarrow> wcode) \<Rightarrow> nat \<Rightarrow> rstate \<Rightarrow> val \<times> rstate" where
  "callFn code w s =
     (case after (code w) of
        None \<Rightarrow> callFn_track code w s
      | Some f \<Rightarrow> f (fst (callFn_track code w s)) (snd (callFn_track code w s)))"

text \<open>
  \<^verbatim>\<open>w(fn, after)\<close> (here \<open>watch\<close>): the watch gets the next number and is
  called once. When \<^verbatim>\<open>fn\<close> is a descriptor, \<^verbatim>\<open>fn.$on(callFn)\<close> also makes
  the watch the observer of the descriptor, so that \<^verbatim>\<open>_up\<close> of the
  descriptor calls \<^verbatim>\<open>callFn\<close> at once; that is \<open>w_live\<close> in the section on
  the engine.
\<close>

definition watch :: "(nat \<Rightarrow> wcode) \<Rightarrow> rstate \<Rightarrow> val \<times> rstate" where
  "watch code s =
     (let i = next_watch s;
          s1 = s\<lparr> next_watch := Suc i,
                 collector := (if i \<in> fst ` set (collector s) then collector s
                               else collector s @ [(i, [])]),
                 currentDeps := (currentDeps s)(i := []) \<rparr>
      in callFn code i s1)"

text \<open>
  \<^verbatim>\<open>executeQueue\<close> of a closure that holds \<open>args\<close>: both stacks are copied and
  cleared, the queued watches run, then the next-tick functions; if the stack
  has been filled meanwhile, the same closure is scheduled again.
\<close>

definition executeQueue :: "(nat \<Rightarrow> wcode) \<Rightarrow> val \<times> val \<Rightarrow> rstate \<Rightarrow> rstate" where
  "executeQueue code args s =
     (let queue = queueStack s;
          ticks = nextTicks s;
          s1 = s\<lparr> queueStack := [], nextTicks := [] \<rparr>;
          s2 = fold (\<lambda>i s'. snd (callFn code i s')) queue s1;
          s3 = fold (\<lambda>k s'. s'\<lparr> trace := trace s' @ [Ticked k] \<rparr>) ticks s2
      in if queueStack s3 \<noteq> [] then s3\<lparr> timers := timers s3 @ [args] \<rparr> else s3)"

text \<open>The host runs the oldest pending timer.\<close>

definition run_timer :: "(nat \<Rightarrow> wcode) \<Rightarrow> rstate \<Rightarrow> rstate" where
  "run_timer code s =
     (case timers s of
        [] \<Rightarrow> s
      | args # rest \<Rightarrow> executeQueue code args (s\<lparr> timers := rest \<rparr>))"


section \<open>Notions used to state the properties of watches\<close>

text \<open>
  The (proxy, property) pairs that an expression reads, in order: a read of a
  data property of a proxy counts, a read of a plain object or of a dependency
  prop does not.
\<close>

primrec reads :: "expr \<Rightarrow> rstate \<Rightarrow> (nat \<times> string) list" where
  "reads (Ret v) s = []"
| "reads (Get a p k) s =
     (case heap s a of
        Some (Proxy px) \<Rightarrow> if p \<in> depProps then [] else [(a, p)]
      | _ \<Rightarrow> [])
     @ (case get_trap a p s of (v, s') \<Rightarrow> reads (k v) s')"

text \<open>The pairs held by a map from proxy to properties.\<close>

definition pairs :: "(nat \<times> string list) list \<Rightarrow> (nat \<times> string) set" where
  "pairs deps = {(a, p). \<exists>ps. (a, ps) \<in> set deps \<and> p \<in> set ps}"

text \<open>
  A callback is subscribed to a pair when the observers that the proxy keeps
  for the property hold it.
\<close>

definition subscribed :: "rstate \<Rightarrow> callback \<Rightarrow> nat \<Rightarrow> string \<Rightarrow> bool" where
  "subscribed s c a p =
     (case heap s a of
        Some (Proxy px) \<Rightarrow> c \<in> set (members (observers (regs s (registry_of px))) p)
      | _ \<Rightarrow> False)"

text \<open>
  Two proxies that keep their observers in the same maps (after a state
  transfer the new proxy works on the maps of the old one).
\<close>

definition maps_at :: "rstate \<Rightarrow> nat \<Rightarrow> nat option" where
  "maps_at s a = (case heap s a of Some (Proxy px) \<Rightarrow> Some (registry_of px) | _ \<Rightarrow> None)"

definition same_maps :: "rstate \<Rightarrow> nat \<Rightarrow> nat \<Rightarrow> bool" where
  "same_maps s a b = (maps_at s a \<noteq> None \<and> maps_at s a = maps_at s b)"

text \<open>The values that the expression of watch \<open>i\<close> was evaluated to, oldest first.\<close>

fun evaluations :: "nat \<Rightarrow> event list \<Rightarrow> val list" where
  "evaluations i [] = []"
| "evaluations i (Evaluated j v # evs) = (if j = i then v # evaluations i evs else evaluations i evs)"
| "evaluations i (ev # evs) = evaluations i evs"




text \<open>What a run leaves in the collector: every tracker has recorded the reads.\<close>

definition tracked :: "(nat \<times> string) list \<Rightarrow> (nat \<times> string list) list \<Rightarrow> (nat \<times> string list) list" where
  "tracked rs deps = fold (\<lambda>ap. track (fst ap) (snd ap)) rs deps"

text \<open>The callbacks subscribed to a property in a proxy's observer map.\<close>

definition obs :: "rstate \<Rightarrow> nat \<Rightarrow> string \<Rightarrow> callback set" where
  "obs s g p = set (members (observers (regs s g)) p)"

text \<open>
  Between flushes the stack and the timers go together: an empty stack has no
  flush pending, a filled one has exactly one.
\<close>

definition sched_ok :: "rstate \<Rightarrow> bool" where
  "sched_ok s \<longleftrightarrow>
     distinct (queueStack s)
     \<and> (if queueStack s = [] then timers s = [] else length (timers s) = 1)"

section \<open>The engine: slots bound to watches\<close>

text \<open>
  In the sections above a piece of markup is known by its top-level nodes only,
  and the observer of a descriptor is a call that is recorded and not run. In
  the source the observer of a descriptor is the \<^verbatim>\<open>callFn\<close> of the watch that
  \<^verbatim>\<open>fragment\<close> creates for the slot (\<^verbatim>\<open>fn.$on(callFn)\<close> in \<^verbatim>\<open>w\<close>), and its
  post-processing step is \<^verbatim>\<open>setNode(value, partialMemo)\<close>. This section puts
  the two layers together: rendering binds the slots, \<^verbatim>\<open>_up\<close> of a descriptor
  runs its watch, and a watch patches its slot.
\<close>

subsection \<open>What the host supplies\<close>

text \<open>
  Parsed markup: a delimiter comment (\<open>Hole\<close>, a content slot), or any other
  node with the slots among its attributes in order (\<open>Bound\<close> is an attribute
  whose value is the delimiter, \<open>Handler\<close> one whose name starts with \<^verbatim>\<open>@\<close>)
  and its child nodes.
\<close>

datatype attr = Bound | Handler

datatype markup = Hole | Elem node_kind "attr list" "markup list"

text \<open>
  The host: what \<^verbatim>\<open>createNodes\<close> parses a piece of markup to, what calling the
  function \<open>Fn f\<close> does (a tree of reads that returns a value of the data
  layer), and which value of the template layer a function or object of the
  data layer is (a template, a plain function, an array). A primitive is
  itself.
\<close>

record host =
  h_parse :: "string \<Rightarrow> markup list"
  h_body :: "nat \<Rightarrow> expr"
  h_view :: "val \<Rightarrow> tval"


subsection \<open>The watches of the slots\<close>

text \<open>
  Next to the reactive state: for the watch of number \<open>k\<close>, the expression
  cell of the descriptor it was created on (\<^verbatim>\<open>fn\<close> of the watch is the
  descriptor, which calls the cell), whether its post-processing step is the one
  of a content slot (\<^verbatim>\<open>setNode\<close>) or the one of an attribute (which sets the
  attribute and touches nothing that is modelled), and \<^verbatim>\<open>partialMemo\<close>. The
  symbol of the next \<^verbatim>\<open>createPartial()\<close> is \<open>w_group\<close>.
\<close>

record watches =
  w_data :: rstate
  w_cell :: "nat \<Rightarrow> tval"
  w_content :: "nat \<Rightarrow> bool"
  w_memo :: "nat \<Rightarrow> partial option"
  w_group :: nat

text \<open>
  The calls that close the recursion between rendering and watching:
  \<open>h_call k\<close> is \<^verbatim>\<open>callFn\<close> of the watch \<open>k\<close>, \<open>h_slot d\<close> is \<^verbatim>\<open>comment\<close> on
  the descriptor \<open>d\<close>, returning the nodes that take the place of the comment
  and the descriptor as the call leaves it. \<open>None\<close> is a call that has not
  returned.
\<close>

record hooks =
  h_call :: "nat \<Rightarrow> world \<times> watches \<Rightarrow> (err + world \<times> watches) option"
  h_slot :: "descriptor \<Rightarrow> world \<times> watches
               \<Rightarrow> (err + nat list \<times> descriptor \<times> world \<times> watches) option"


text \<open>
  The code of the watches as \<^verbatim>\<open>callFn\<close> of the section on watches takes it:
  the function of watch \<open>k\<close> is what its cell holds.
\<close>

definition cell_code :: "host \<Rightarrow> watches \<Rightarrow> nat \<Rightarrow> wcode" where
  "cell_code host b k =
     \<lparr> fn = (case w_cell b k of Fn f \<Rightarrow> h_body host f | _ \<Rightarrow> Ret (Prim Undefined)),
       after = None \<rparr>"

text \<open>
  \<^verbatim>\<open>w(expression, after)\<close> on a descriptor, up to the return of the first
  \<^verbatim>\<open>callFn\<close> before its post-processing step: the watch gets its number, the
  descriptor gets the watch as observer, and the cell is evaluated under
  tracking. Only a cell that holds a plain function is modelled: calling a
  cell that holds a template would render that template in the middle of the
  evaluation.
\<close>

definition w_live :: "host \<Rightarrow> bool \<Rightarrow> descriptor \<Rightarrow> watches
    \<Rightarrow> (val \<times> nat \<times> descriptor \<times> watches) option" where
  "w_live host slot d b =
     (case expression d of
        Fn f \<Rightarrow>
          let k = next_watch (w_data b);
              b1 = b\<lparr> w_cell := (w_cell b)(k := expression d),
                     w_content := (w_content b)(k := slot),
                     w_memo := (w_memo b)(k := None) \<rparr>;
              res = watch (cell_code host b1) (w_data b1)
          in Some (fst res, k, d\<lparr> observer := Some k \<rparr>, b1\<lparr> w_data := snd res \<rparr>)
      | _ \<Rightarrow> None)"

subsection \<open>\<^verbatim>\<open>_up\<close> of a descriptor and \<^verbatim>\<open>partial.add\<close>\<close>



subsection \<open>\<^verbatim>\<open>fragment\<close>, \<^verbatim>\<open>attrs\<close> and \<^verbatim>\<open>partial()\<close>\<close>

definition new_node :: "node_kind \<Rightarrow> world \<Rightarrow> nat \<times> world" where
  "new_node k w =
     (next_node w,
      w\<lparr> kind_of := (kind_of w)(next_node w := k),
         nodeValue := (nodeValue w)(next_node w := Lit Null),
         tags_of := (tags_of w)(next_node w := {}),
         next_node := Suc (next_node w) \<rparr>)"

text \<open>
  \<^verbatim>\<open>attrs(node, expressions)\<close> over the slots among the attributes of one node.
  The descriptors from the cursor on are the second argument; the result holds
  the descriptors passed, as they are left, and the ones still to come. With
  the cursor at the end the function returns. A handler is added as an event
  listener and gets no watch; any other slot gets a watch whose post-processing
  step sets the attribute.
\<close>

fun attrs :: "host \<Rightarrow> attr list \<Rightarrow> descriptor list \<Rightarrow> watches
    \<Rightarrow> (descriptor list \<times> descriptor list \<times> watches) option" where
  "attrs host [] ds b = Some ([], ds, b)"
| "attrs host (a # as) [] b = Some ([], [], b)"
| "attrs host (Handler # as) (d # ds) b =
     (case attrs host as ds b of
        None \<Rightarrow> None
      | Some (passed, rest, b') \<Rightarrow> Some (d # passed, rest, b'))"
| "attrs host (Bound # as) (d # ds) b =
     (case w_live host False d b of
        None \<Rightarrow> None
      | Some (v, k, d', b1) \<Rightarrow>
          (case attrs host as ds b1 of
             None \<Rightarrow> None
           | Some (passed, rest, b') \<Rightarrow> Some (d' # passed, rest, b')))"

text \<open>
  \<^verbatim>\<open>fragment(dom, expressions)\<close> over parsed nodes: a delimiter comment is
  replaced by what \<^verbatim>\<open>comment\<close> returns for the descriptor under the cursor
  (with none there, \<^verbatim>\<open>w\<close> throws on \<^verbatim>\<open>'$on' in fn\<close>); any other node has its
  attributes and then its children bound, and stays. The result lists the nodes
  that end up at the level walked. Nodes inside a node are allocated, but only
  the child list of the parent the rendering is mounted in is modelled.
\<close>

fun walk :: "host \<Rightarrow> hooks \<Rightarrow> markup list \<Rightarrow> descriptor list \<Rightarrow> world \<times> watches
    \<Rightarrow> (err + nat list \<times> descriptor list \<times> descriptor list \<times> world \<times> watches) option"
  and walk_node :: "host \<Rightarrow> hooks \<Rightarrow> markup \<Rightarrow> descriptor list \<Rightarrow> world \<times> watches
    \<Rightarrow> (err + nat list \<times> descriptor list \<times> descriptor list \<times> world \<times> watches) option" where
  "walk host hooks [] ds st = Some (Inr ([], [], ds, st))"
| "walk host hooks (m # ms) ds st =
     (case walk_node host hooks m ds st of
        None \<Rightarrow> None
      | Some (Inl x) \<Rightarrow> Some (Inl x)
      | Some (Inr (ns, passed, rest, st1)) \<Rightarrow>
          (case walk host hooks ms rest st1 of
             None \<Rightarrow> None
           | Some (Inl x) \<Rightarrow> Some (Inl x)
           | Some (Inr (ns', passed', rest', st2)) \<Rightarrow>
               Some (Inr (ns @ ns', passed @ passed', rest', st2))))"
| "walk_node host hooks Hole ds st =
     (case ds of
        [] \<Rightarrow> Some (Inl TypeError)
      | d # rest \<Rightarrow>
          (case h_slot hooks d st of
             None \<Rightarrow> None
           | Some (Inl x) \<Rightarrow> Some (Inl x)
           | Some (Inr (ns, d', st1)) \<Rightarrow> Some (Inr (ns, [d'], rest, st1))))"
| "walk_node host hooks (Elem k as ms) ds st =
     (case attrs host as ds (snd st) of
        None \<Rightarrow> None
      | Some (passed, rest, b1) \<Rightarrow>
          (case walk host hooks ms rest (snd (new_node k (fst st)), b1) of
             None \<Rightarrow> None
           | Some (Inl x) \<Rightarrow> Some (Inl x)
           | Some (Inr (inner, passed', rest', st2)) \<Rightarrow>
               Some (Inr ([fst (new_node k (fst st))], passed @ passed', rest', st2))))"

text \<open>
  The walk over the whole markup of a partial, cut at the bookend comments: the
  nodes of the \<open>i\<close>-th piece are kept apart for the \<open>i\<close>-th chunk; the
  descriptors come back in their places.
\<close>

fun fragment_live :: "host \<Rightarrow> hooks \<Rightarrow> string list \<Rightarrow> descriptor list \<Rightarrow> world \<times> watches
    \<Rightarrow> (err + nat list list \<times> descriptor list \<times> world \<times> watches) option" where
  "fragment_live host hooks [] ds st = Some (Inr ([], ds, st))"
| "fragment_live host hooks (s # ss) ds st =
     (case walk host hooks (h_parse host s) ds st of
        None \<Rightarrow> None
      | Some (Inl x) \<Rightarrow> Some (Inl x)
      | Some (Inr (ns, passed, rest, st1)) \<Rightarrow>
          (case fragment_live host hooks ss rest st1 of
             None \<Rightarrow> None
           | Some (Inl x) \<Rightarrow> Some (Inl x)
           | Some (Inr (nss, ds', st2)) \<Rightarrow> Some (Inr (ns # nss, passed @ ds', st2))))"

text \<open>
  \<^verbatim>\<open>assignDomChunks\<close> on the nodes so made: every node of the \<open>i\<close>-th piece
  gets the group symbol and is pushed onto the array of \<^verbatim>\<open>chunks[i]\<close>.
\<close>

fun assign_live :: "nat \<Rightarrow> nat list \<Rightarrow> nat \<Rightarrow> nat list list \<Rightarrow> world \<Rightarrow> err + world" where
  "assign_live g cs i [] w = Inr w"
| "assign_live g cs i (ns # nss) w =
     (if ns = [] then assign_live g cs (Suc i) nss w
      else if length cs \<le> i then Inl TypeError
      else
        assign_live g cs (Suc i) nss
          (w\<lparr> tags_of := (\<lambda>n. if n \<in> set ns then insert g (tags_of w n) else tags_of w n),
              dom_at := (dom_at w)(c_dom (chunk_at w (cs ! i)) :=
                          dom_at w (c_dom (chunk_at w (cs ! i))) @ ns) \<rparr>))"

text \<open>
  The descriptors of a chunk are the objects that sit in \<^verbatim>\<open>expressions.e\<close> at
  the chunk's place, so an observer installed through one is seen through the
  other. Descriptors are values here, and the descriptors that the walk has
  left are written back to the chunks, each chunk taking as many as it holds.
  (Two chunks of one partial that are one object, as after a key is used twice
  in one list, are not told apart by this.)
\<close>

fun share_bound :: "nat list \<Rightarrow> descriptor list \<Rightarrow> world \<Rightarrow> world" where
  "share_bound [] ds w = w"
| "share_bound (c # cs) ds w =
     (if length ds < length (c_exp (chunk_at w c)) then w
      else
        share_bound cs (drop (length (c_exp (chunk_at w c))) ds)
          (w\<lparr> chunk_at := (chunk_at w)
                (c := (chunk_at w c)\<lparr> c_exp := take (length (c_exp (chunk_at w c))) ds \<rparr>) \<rparr>))"

text \<open>\<^verbatim>\<open>partial()\<close>: the text node of a lone text chunk as in \<open>render\<close>, or the fragment.\<close>

definition render_live :: "host \<Rightarrow> hooks \<Rightarrow> partial \<Rightarrow> world \<times> watches
    \<Rightarrow> (err + rendered \<times> partial \<times> world \<times> watches) option" where
  "render_live host hooks p st =
     (let pw = (if chunks p = [] then addPlaceholderChunk None p (fst st) else (p, fst st));
          p1 = fst pw; w1 = snd pw
      in if length (chunks p1) = 1 \<and> \<not> isTpl (c_tpl (chunk_at w1 (hd (chunks p1)))) then
           (case render (\<lambda>s. []) p (fst st) of
              Inl x \<Rightarrow> Some (Inl x)
            | Inr (f, p', w') \<Rightarrow> Some (Inr (f, p', w', snd st)))
         else
           (case fragment_live host hooks (segments [] (p_html p1)) (p_expressions p1)
                   (w1, snd st) of
              None \<Rightarrow> None
            | Some (Inl x) \<Rightarrow> Some (Inl x)
            | Some (Inr (nss, ds, w2, b2)) \<Rightarrow>
                (case assign_live (p_group p1) (chunks p1) 0 nss w2 of
                   Inl x \<Rightarrow> Some (Inl x)
                 | Inr w3 \<Rightarrow>
                     Some (Inr (Frag (concat nss), reset p1,
                                share_bound (chunks p1) ds w3, b2)))))"

subsection \<open>Reconciliation with the observers run\<close>

text \<open>
  \<^verbatim>\<open>closeSubPartial\<close>. The chunks of the sub-partial were made from the
  templates of the chunks they stand for, so the two hold the same descriptor
  objects: with the node arrays, the descriptors that the rendering has bound
  are carried over.
\<close>

fun share_chunks :: "nat list \<Rightarrow> nat list \<Rightarrow> nat \<Rightarrow> world \<Rightarrow> world" where
  "share_chunks [] cb i w = w"
| "share_chunks (a # as) cb i w =
     (if i < length cb then
        share_chunks as cb (Suc i)
          (w\<lparr> chunk_at := (chunk_at w)
                (cb ! i := (chunk_at w (cb ! i))\<lparr> c_exp := c_exp (chunk_at w a) \<rparr>) \<rparr>)
      else w)"

definition closeSubPartial_live :: "host \<Rightarrow> hooks \<Rightarrow> up_state \<times> watches
    \<Rightarrow> (err + up_state \<times> watches) option" where
  "closeSubPartial_live host hooks sb =
     (let st = fst sb in
      if p_l (u_sub st) = 0 then Some (Inr sb)
      else
        case render_live host hooks (u_sub st) (u_world st, snd sb) of
          None \<Rightarrow> None
        | Some (Inl x) \<Rightarrow> Some (Inl x)
        | Some (Inr (frag, sub', w1, b1)) \<Rightarrow>
            (case lastNode st of
               None \<Rightarrow> Some (Inl TypeError)
             | Some ln \<Rightarrow>
                 let w2 = w1\<lparr> tree :=
                            (if startChunking st \<noteq> 0 then dom_after ln (frag_nodes frag) (tree w1)
                             else dom_before ln (frag_nodes frag) (tree w1)) \<rparr>
                 in case transferChunks (previousChunks sub') (chunks (u_main st))
                           (startChunking st) w2 of
                      Inl x \<Rightarrow> Some (Inl x)
                    | Inr w3 \<Rightarrow>
                        Some (Inr (st\<lparr> u_sub := sub', lastNode := lastChild frag,
                                       u_world := share_chunks (previousChunks sub')
                                                    (chunks (u_main st)) (startChunking st) w3 \<rparr>,
                                   b1))))"










subsection \<open>\<^verbatim>\<open>callFn\<close> and \<^verbatim>\<open>comment\<close>\<close>




subsection \<open>Mounting and flushing\<close>






section \<open>Concrete scenes\<close>

text \<open>
  A parser that turns every non-empty piece of markup into one top-level node,
  an empty store, a list of values rendered by a fresh partial of group 7 and
  mounted, and an update of a mounted partial with a new value.
\<close>

definition tops1 :: "string \<Rightarrow> node_kind list" where
  "tops1 s = (if s = [] then [] else [OtherNode])"

definition empty_world :: world where
  "empty_world =
     \<lparr> chunk_at = (\<lambda>a. \<lparr> c_html = [], c_exp = [], c_dom = 0, c_tpl = Lit Undefined,
                           c_key = Undefined \<rparr>),
       dom_at = (\<lambda>a. []), next_ref = 0, kind_of = (\<lambda>n. OtherNode),
       nodeValue = (\<lambda>n. Lit Null), tags_of = (\<lambda>n. {}), next_node = 0, tree = [],
       observed = [] \<rparr>"

definition mounted :: "tval list \<Rightarrow> err + (partial \<times> world)" where
  "mounted xs =
     (case add_all xs (createPartial 7, empty_world) of
        Inl x \<Rightarrow> Inl x
      | Inr (p, w) \<Rightarrow>
          (case render tops1 p w of
             Inl x \<Rightarrow> Inl x
           | Inr (f, p', w') \<Rightarrow> Inr (p', w'\<lparr> tree := frag_nodes f \<rparr>)))"

definition then_set :: "tval \<Rightarrow> err + (partial \<times> world) \<Rightarrow> err + (partial \<times> world)" where
  "then_set v r = (case r of Inl x \<Rightarrow> Inl x | Inr (p, w) \<Rightarrow> setNode tops1 v p w)"

text \<open>The state in which the loop of \<^verbatim>\<open>_up\<close> starts after the values are added.\<close>

definition then_start :: "tval list \<Rightarrow> err + (partial \<times> world) \<Rightarrow> err + up_state" where
  "then_start xs r =
     (case r of
        Inl x \<Rightarrow> Inl x
      | Inr (p, w) \<Rightarrow>
          (case add_all xs (p, w) of Inl x \<Rightarrow> Inl x | Inr (p', w') \<Rightarrow> up_init p' w'))"

text \<open>A static list item, and an item with one expression slot.\<close>

definition li :: "string \<Rightarrow> tval" where
  "li s = t [''<li>'' @ s @ ''</li>''] []"

definition item :: "nat \<Rightarrow> tval" where
  "item f = t [''<li>'', ''</li>''] [Fn f]"

text \<open>
  A loop state: a keyed list \<open>[a, b]\<close> (keys 1 and 2) updated to an
  un-keyed item followed by the item of key 1.
\<close>

definition keyed_scene :: up_state where
  "keyed_scene =
     projr (then_start [li ''x'', with_key (li ''a'') (Num 1)]
              (mounted [with_key (li ''a'') (Num 1), with_key (li ''b'') (Num 2)]))"

text \<open>
  The data \<^verbatim>\<open>{flag: true, a: {x: 1}, b: {x: 2}}\<close> as plain objects at the
  addresses 0, 1 and 2; the same data wrapped (the proxies of \<open>a\<close>, \<open>b\<close> and
  of the whole are at 4, 6 and 8); and a watch of the expression
  \<^verbatim>\<open>() => data.flag ? data.a.x : 0\<close> created on the wrapped data.
\<close>

definition data_scene :: rstate where
  "data_scene =
     \<lparr> heap = [0 \<mapsto> Plain False [(''flag'', Prim (Bool True)), (''a'', Ref 1), (''b'', Ref 2)],
               1 \<mapsto> Plain False [(''x'', Prim (Num 1))],
               2 \<mapsto> Plain False [(''x'', Prim (Num 2))]],
       regs = (\<lambda>g. \<lparr> observers = [], observerProperties = [] \<rparr>),
       next_addr = 3, collector = [], queueStack = [], nextTicks = [], timers = [],
       currentDeps = (\<lambda>i. []), next_watch = 0, trace = [] \<rparr>"

definition wrapped_scene :: rstate where
  "wrapped_scene =
     (case reactive (Suc (Suc 0)) (Ref 0) (None, None) data_scene of
        None \<Rightarrow> data_scene
      | Some (v, s) \<Rightarrow> s)"

definition flag_watch :: "nat \<Rightarrow> wcode" where
  "flag_watch i =
     \<lparr> fn = Get 8 ''flag''
              (\<lambda>v. if truthy_val v
                    then Get 8 ''a'' (\<lambda>a. case a of Ref a' \<Rightarrow> Get a' ''x'' Ret
                                           | _ \<Rightarrow> Ret (Prim Undefined))
                    else Ret (Prim (Num 0))),
       after = None \<rparr>"

definition watched_scene :: rstate where
  "watched_scene = snd (watch flag_watch wrapped_scene)"

text \<open>The watched data after \<^verbatim>\<open>data.flag = false\<close>.\<close>

definition toggled_scene :: rstate where
  "toggled_scene =
     (case set_trap 0 8 ''flag'' (Prim (Bool False)) watched_scene of
        Some (Inr s) \<Rightarrow> s
      | _ \<Rightarrow> watched_scene)"

text \<open>
  One turn on the watched data, \<^verbatim>\<open>data.flag = false; data.a = data.b\<close>, and
  the flush that follows it.
\<close>

definition assigned_scene :: rstate where
  "assigned_scene =
     (case set_trap 0 8 ''flag'' (Prim (Bool False)) watched_scene of
        Some (Inr s1) \<Rightarrow>
          (case set_trap 0 8 ''a'' (Ref 6) s1 of Some (Inr s2) \<Rightarrow> s2 | _ \<Rightarrow> s1)
      | _ \<Rightarrow> watched_scene)"

definition flushed_scene :: rstate where
  "flushed_scene = run_timer flag_watch assigned_scene"

section \<open>Scenes of the engine\<close>











section \<open>Properties of the template compiler\<close>

lemma fold_addExpressions:
  assumes "\<And>x html es. x \<in> set xs \<Longrightarrow>
     addExpressions x (html, es) = (html @ slot_markup x, es @ slot_expressions x)"
  shows "fold addExpressions xs (html, es) =
     (html @ concat (map slot_markup xs), es @ concat (map slot_expressions xs))"
  using assms by (induction xs arbitrary: html es) simp_all

lemma slot_markup_Arr: "slot_markup (Arr xs) = concat (map slot_markup xs)"
  by (induction xs) (simp_all add: slot_markup_def)

lemma slot_expressions_Arr: "slot_expressions (Arr xs) = concat (map slot_expressions xs)"
  by (induction xs) (simp_all add: slot_expressions_def)

lemma addExpressions_flat:
  "addExpressions x (html, es) = (html @ slot_markup x, es @ slot_expressions x)"
proof (induction x arbitrary: html es)
  case (Arr xs)
  then show ?case
    by (simp add: fold_addExpressions slot_markup_Arr slot_expressions_Arr)
qed (simp_all add: slot_markup_def slot_expressions_def)

lemma spec_expressions_Nil: "spec_expressions ss [] = []"
  by (cases ss) simp_all

lemma interlace_flat:
  "interlaceTemplate ss sl (html, es) =
     (html @ spec_markup ss (defined_slots sl), es @ spec_expressions ss (defined_slots sl))"
proof (induction ss sl "(html, es)" arbitrary: html es rule: interlaceTemplate.induct)
  case (1 slots)
  then show ?case by simp
next
  case (2 s ss html es)
  then show ?case by (simp add: defined_slots_def spec_expressions_Nil)
next
  case (3 s ss x xs html es)
  then show ?case
    by (simp add: defined_slots_def addExpressions_flat slot_markup_def slot_expressions_def)
qed

lemma defined_slots_id: "Lit Undefined \<notin> set sl \<Longrightarrow> defined_slots sl = sl"
  by (induction sl) (auto simp: defined_slots_def)

text \<open>
  C6, as stated, fails: a slot whose value is undefined is skipped by the
  reducer, while the claim's reading inlines its text.
\<close>

theorem C6_undefined_slot_counterexample:
  "fst (toString [''a'', ''b''] [Lit Undefined]) = ''ab''
   \<and> spec_markup [''a'', ''b''] [Lit Undefined] = ''aundefinedb''"
  by (simp add: toString_def slot_markup_def)

text \<open>
  C6 (amended): template compilation maps every function-valued slot to one
  placeholder sentinel in the markup at the slot's position and one expression
  descriptor appended to the expressions, in left-to-right order; array-valued
  slots are flattened recursively, element by element, in order; every other
  slot value is inlined as its literal text, except that a top-level slot whose
  value is undefined contributes nothing (an undefined element of an array is
  inlined as text). Unless the template is the empty one, the markup of
  \<^verbatim>\<open>toString\<close> is what the reducer produces.
\<close>

theorem C6_slots_compiled_in_order:
  "interlaceTemplate strings expSlots ([], []) =
     (spec_markup strings (defined_slots expSlots), spec_expressions strings (defined_slots expSlots))
   \<and> (Lit Undefined \<notin> set expSlots \<longrightarrow>
        interlaceTemplate strings expSlots ([], []) =
          (spec_markup strings expSlots, spec_expressions strings expSlots))
   \<and> (\<not> (expSlots = [] \<and> strings = [[]]) \<longrightarrow>
        toString strings expSlots = interlaceTemplate strings expSlots ([], []))"
proof -
  have a: "interlaceTemplate strings expSlots ([], []) =
     (spec_markup strings (defined_slots expSlots), spec_expressions strings (defined_slots expSlots))"
    using interlace_flat [of strings expSlots "[]" "[]"] by simp
  show ?thesis
    using a by (auto simp: defined_slots_id toString_def)
qed

text \<open>C6, witness: a template with a nested array slot and a string slot.\<close>

theorem C6_slots_compiled_in_order_witness:
  "Lit Undefined \<notin> set [Arr [Fn 1, Lit (Num 2), Arr [Fn 3]], Lit (Str ''x'')]
   \<and> toString [''<li>'', ''-'', ''</li>''] [Arr [Fn 1, Lit (Num 2), Arr [Fn 3]], Lit (Str ''x'')] =
       (''<li>'' @ delimiterComment @ ''2'' @ delimiterComment @ ''-x</li>'',
        [new_descriptor (Fn 1), new_descriptor (Fn 3)])"
  using C6_slots_compiled_in_order
    [of "[''<li>'', ''-'', ''</li>'']" "[Arr [Fn 1, Lit (Num 2), Arr [Fn 3]], Lit (Str ''x'')]"]
  by (simp add: slot_markup_def slot_expressions_def number_text_def digit_def)

section \<open>Properties of \<^verbatim>\<open>partial.add\<close>\<close>

lemma add_noop: "\<not> truthy v \<Longrightarrow> v \<noteq> Lit (Num 0) \<Longrightarrow> add v pw = Inr pw"
  by (simp add: add_def)

text \<open>
  C10: \<^verbatim>\<open>partial.add\<close> with null, undefined, false or the empty string is a
  no-op (chunks, counter and accumulated markup stay as they are, and
  \<^verbatim>\<open>setNode\<close> then patches as if nothing had been added), whereas adding the
  number 0 appends a chunk: a text chunk for the value 0 with empty markup.
\<close>

theorem C10_add_falsy:
  "add (Lit Null) (p, w) = Inr (p, w)
   \<and> add (Lit Undefined) (p, w) = Inr (p, w)
   \<and> add (Lit (Bool False)) (p, w) = Inr (p, w)
   \<and> add (Lit (Str [])) (p, w) = Inr (p, w)
   \<and> (\<forall>v \<in> {Null, Undefined, Bool False, Str []}. setNode tops (Lit v) p w = up tops p w)
   \<and> (\<exists>p' w'. add (Lit (Num 0)) (p, w) = Inr (p', w')
        \<and> length (chunks p') = Suc (length (chunks p))
        \<and> p_l p' = Suc (p_l p)
        \<and> p_html p' = p_html p @ bookendComment
        \<and> c_tpl (chunk_at w' (last (chunks p'))) = Lit (Num 0)
        \<and> c_html (chunk_at w' (last (chunks p'))) = []
        \<and> dom_at w' (c_dom (chunk_at w' (last (chunks p')))) = [])"
  by (simp add: add_def setNode_def Let_def)

text \<open>C10, witness: a fresh partial of group 7 over the empty store.\<close>

theorem C10_add_falsy_witness:
  "add (Lit Null) (createPartial 7, empty_world) = Inr (createPartial 7, empty_world)
   \<and> add (Lit (Str [])) (createPartial 7, empty_world) = Inr (createPartial 7, empty_world)
   \<and> (\<exists>p' w'. add (Lit (Num 0)) (createPartial 7, empty_world) = Inr (p', w')
        \<and> length (chunks p') = 1 \<and> p_l p' = 1)"
proof -
  note h = C10_add_falsy [of "createPartial 7" empty_world tops1]
  from h obtain p' w' where
    "add (Lit (Num 0)) (createPartial 7, empty_world) = Inr (p', w')"
    "length (chunks p') = Suc (length (chunks (createPartial 7)))"
    "p_l p' = Suc (p_l (createPartial 7))"
    by blast
  then have "\<exists>p' w'. add (Lit (Num 0)) (createPartial 7, empty_world) = Inr (p', w')
        \<and> length (chunks p') = 1 \<and> p_l p' = 1"
    by (simp add: createPartial_def)
  with h show ?thesis by blast
qed


section \<open>Properties of reconciliation\<close>

lemma rebind_result:
  "rebind ds ns w = Inr (es, w') \<Longrightarrow>
     length ds \<le> length ns
     \<and> es = map (\<lambda>(d, n). d\<lparr> expression := e n \<rparr>) (zip ds ns)
     \<and> w' = w\<lparr> observed := observed w @ es \<rparr>"
proof (induction ds ns w arbitrary: es w' rule: rebind.induct)
  case (1 ns w)
  then show ?case by simp
next
  case (2 d ds w)
  then show ?case by simp
next
  case (3 d ds n ns w)
  from "3.prems" obtain ds' where
    r: "rebind ds ns (w\<lparr> observed := observed w @ [d\<lparr> expression := e n \<rparr>] \<rparr>) = Inr (ds', w')"
    and es: "es = d\<lparr> expression := e n \<rparr> # ds'"
    by (auto simp: Let_def split: sum.splits)
  from "3.IH" [OF refl r] es show ?case by simp
qed

lemmas scene_defs = keyed_scene_def mounted_def then_set_def then_start_def li_def item_def tops1_def empty_world_def
   add_def render_def createPartial_def setNode_def up_def up_init_def up_finish_def up_chunk_def keyed_branch_def
   reuse_branch_def rebuild_branch_def closeSubPartial_def reset_def addPlaceholderChunk_def
   t_def toString_def bookendComment_def bookend_def delimiterComment_def delimiter_def trailing_def removeNodes_def
   dom_before_def dom_after_def insert_before_def following_def preceding_def nextSibling_def
   last_of_def isTextNodeChunk_def new_descriptor_def Let_def


lemma keyed_branch_effect:
  assumes "keyed_branch tops index c prev st = Inr st'"
  shows "\<exists>st1. closeSubPartial tops st = Inr st1
     \<and> chunk_at (u_world st') = chunk_at (u_world st1)
     \<and> dom_at (u_world st') = dom_at (u_world st1)
     \<and> next_node (u_world st') = next_node (u_world st1)
     \<and> observed (u_world st') = observed (u_world st1)
     \<and> u_main st' = u_main st1 \<and> u_sub st' = u_sub st1
     \<and> lastNode st' = last_of (dom_at (u_world st1) (c_dom (chunk_at (u_world st1) c)))"
proof -
  from assms obtain st1 where cs: "closeSubPartial tops st = Inr st1"
    by (auto simp: keyed_branch_def split: sum.splits)
  from assms cs show ?thesis
    by (auto simp: keyed_branch_def Let_def split: if_splits)
qed

lemma reuse_branch_effect:
  assumes "reuse_branch tops c pr st = Inr st'"
  shows "\<exists>st1 es. closeSubPartial tops st = Inr st1
     \<and> length (c_exp (chunk_at (u_world st1) pr)) \<le> length (c_exp (chunk_at (u_world st1) c))
     \<and> es = map (\<lambda>(d, n). d\<lparr> expression := e n \<rparr>)
               (zip (c_exp (chunk_at (u_world st1) pr)) (c_exp (chunk_at (u_world st1) c)))
     \<and> c_exp (chunk_at (u_world st') pr) = es
     \<and> c_exp (chunk_at (u_world st') c) = es
     \<and> observed (u_world st') = observed (u_world st1) @ es
     \<and> c_dom (chunk_at (u_world st') c) = c_dom (chunk_at (u_world st1) pr)
     \<and> c_dom (chunk_at (u_world st') pr) = c_dom (chunk_at (u_world st1) pr)
     \<and> dom_at (u_world st') = dom_at (u_world st1)
     \<and> next_node (u_world st') = next_node (u_world st1)
     \<and> next_ref (u_world st') = next_ref (u_world st1)
     \<and> tree (u_world st') = tree (u_world st1)
     \<and> kind_of (u_world st') = kind_of (u_world st1)
     \<and> tags_of (u_world st') = tags_of (u_world st1)
     \<and> u_main st' = u_main st1 \<and> u_sub st' = u_sub st1
     \<and> lastNode st' = last_of (dom_at (u_world st1) (c_dom (chunk_at (u_world st1) pr)))"
proof -
  from assms obtain st1 where cs: "closeSubPartial tops st = Inr st1"
    by (auto simp: reuse_branch_def split: sum.splits)
  define w where "w = u_world st1"
  from assms cs obtain es w1 where
    rb: "rebind (c_exp (chunk_at w pr)) (c_exp (chunk_at w c)) w = Inr (es, w1)"
    by (auto simp: reuse_branch_def w_def Let_def split: sum.splits)
  from rebind_result [OF rb] have
    len: "length (c_exp (chunk_at w pr)) \<le> length (c_exp (chunk_at w c))"
    and es: "es = map (\<lambda>(d, n). d\<lparr> expression := e n \<rparr>)
                    (zip (c_exp (chunk_at w pr)) (c_exp (chunk_at w c)))"
    and w1: "w1 = w\<lparr> observed := observed w @ es \<rparr>"
    by simp_all
  from assms cs rb have st': "st' =
      (let w2 = w1\<lparr> chunk_at := (chunk_at w1)(pr := (chunk_at w1 pr)\<lparr> c_exp := es \<rparr>) \<rparr>;
           w3 = w2\<lparr> chunk_at := (chunk_at w2)
                      (c := (chunk_at w2 c)\<lparr> c_exp := c_exp (chunk_at w2 pr),
                                             c_dom := c_dom (chunk_at w2 pr) \<rparr>) \<rparr>;
           ln = last_of (dom_at w3 (c_dom (chunk_at w3 c)))
       in st1\<lparr> lastNode := ln,
               u_world :=
                 (if isTextNodeChunk w3 (chunk_at w3 c) \<and> ln \<noteq> None
                     \<and> kind_of w3 (the ln) = TextNode
                  then w3\<lparr> nodeValue := (nodeValue w3)(the ln := c_tpl (chunk_at w3 c)) \<rparr>
                  else w3) \<rparr>)"
    by (simp add: reuse_branch_def w_def Let_def)
  have "closeSubPartial tops st = Inr st1" by (rule cs)
  moreover from len have "length (c_exp (chunk_at (u_world st1) pr))
      \<le> length (c_exp (chunk_at (u_world st1) c))" by (simp add: w_def)
  moreover from es have "es = map (\<lambda>(d, n). d\<lparr> expression := e n \<rparr>)
      (zip (c_exp (chunk_at (u_world st1) pr)) (c_exp (chunk_at (u_world st1) c)))"
    by (simp add: w_def)
  moreover have "c_exp (chunk_at (u_world st') pr) = es" "c_exp (chunk_at (u_world st') c) = es"
    "observed (u_world st') = observed (u_world st1) @ es"
    "c_dom (chunk_at (u_world st') c) = c_dom (chunk_at (u_world st1) pr)"
    "c_dom (chunk_at (u_world st') pr) = c_dom (chunk_at (u_world st1) pr)"
    "dom_at (u_world st') = dom_at (u_world st1)"
    "next_node (u_world st') = next_node (u_world st1)"
    "next_ref (u_world st') = next_ref (u_world st1)"
    "tree (u_world st') = tree (u_world st1)"
    "kind_of (u_world st') = kind_of (u_world st1)"
    "tags_of (u_world st') = tags_of (u_world st1)"
    "u_main st' = u_main st1" "u_sub st' = u_sub st1"
    "lastNode st' = last_of (dom_at (u_world st1) (c_dom (chunk_at (u_world st1) pr)))"
    by (simp_all add: st' w1 w_def Let_def)
  ultimately show ?thesis by blast
qed

lemma rebuild_branch_effect:
  assumes "rebuild_branch index c prev st = Inr st'"
  shows "add (c_tpl (chunk_at (u_world st) c)) (u_sub st, u_world st) = Inr (u_sub st', u_world st')
     \<and> lastNode st' = lastNode st
     \<and> startChunking st' = (if p_l (u_sub st) = 0 then index else startChunking st)
     \<and> u_main st' = (u_main st)\<lparr> toRemove := toRemove (u_main st) @
          (case prev of
             None \<Rightarrow> []
           | Some pr \<Rightarrow>
               if c_html (chunk_at (u_world st) c) \<noteq> c_html (chunk_at (u_world st) pr)
                  \<and> \<not> truthy_lit (c_key (chunk_at (u_world st) pr))
               then dom_at (u_world st) (c_dom (chunk_at (u_world st) pr)) else []) \<rparr>"
  using assms
  by (auto simp: rebuild_branch_def Let_def split: sum.splits option.splits if_splits)

text \<open>
  C2, as stated, fails in its third rule: when the previous chunk of the index
  is keyed, the rebuild branch does not schedule its nodes for removal. In the
  keyed list \<open>[a, b]\<close> updated to \<open>[x, a]\<close>, the chunk \<open>x\<close> at index 0 is
  un-keyed with new markup, the previous chunk there is \<open>a\<close> with node 0, and
  the step queues \<open>x\<close> into the sub-partial and leaves \<^verbatim>\<open>toRemove\<close> empty; node
  0 is still in the tree after the whole update.
\<close>

theorem C2_keyed_previous_counterexample:
  "(case then_start [li ''x'', with_key (li ''a'') (Num 1)]
           (mounted [with_key (li ''a'') (Num 1), with_key (li ''b'') (Num 2)]) of
      Inl x \<Rightarrow> False
    | Inr st \<Rightarrow>
        chunks (u_main st) = [4, 0] \<and> previousChunks (u_main st) = [0, 2]
        \<and> \<not> truthy_lit (c_key (chunk_at (u_world st) 4))
        \<and> c_html (chunk_at (u_world st) 4) \<noteq> c_html (chunk_at (u_world st) 0)
        \<and> dom_at (u_world st) (c_dom (chunk_at (u_world st) 0)) = [0]
        \<and> (case up_chunk tops1 0 4 st of
              Inl x \<Rightarrow> False
            | Inr st' \<Rightarrow> toRemove (u_main st') = [] \<and> p_l (u_sub st') = 1))
   \<and> (case then_set (Arr [li ''x'', with_key (li ''a'') (Num 1)])
             (mounted [with_key (li ''a'') (Num 1), with_key (li ''b'') (Num 2)]) of
        Inl x \<Rightarrow> False
      | Inr (p, w) \<Rightarrow> tree w = [2, 0])"
  by (simp add: scene_defs)

text \<open>
  C2 (amended): for every index of the new chunk list the three rules are tried
  in this order, against the previous chunk of the same index only. (1) A new
  chunk with an explicit key and materialised nodes keeps its chunk object and
  node array as they are (after the pending sub-partial is closed, nothing is
  allocated and nothing is scheduled for removal). Else (2) if the previous
  chunk of the index exists, is not keyed and has the same markup, the new
  chunk takes over the previous chunk's node array. Else (3) the new chunk is
  added to the accumulated sub-partial, and the previous chunk's nodes are
  scheduled for removal exactly when a previous chunk exists at the index and is
  not keyed.
\<close>

theorem C2_rules_in_order:
  assumes run: "up_chunk tops index c st = Inr st'"
  shows
    "let w = u_world st; ch = chunk_at w c; prevs = previousChunks (u_main st);
         keyed = (truthy_lit (c_key ch) \<and> dom_at w (c_dom ch) \<noteq> []);
         same = (index < length prevs \<and> c_html ch = c_html (chunk_at w (prevs ! index))
                 \<and> \<not> truthy_lit (c_key (chunk_at w (prevs ! index))))
     in (keyed \<longrightarrow>
          (\<exists>st1. closeSubPartial tops st = Inr st1
             \<and> chunk_at (u_world st') = chunk_at (u_world st1)
             \<and> dom_at (u_world st') = dom_at (u_world st1)
             \<and> next_node (u_world st') = next_node (u_world st1)
             \<and> u_main st' = u_main st1 \<and> u_sub st' = u_sub st1
             \<and> lastNode st' = last_of (dom_at (u_world st1) (c_dom (chunk_at (u_world st1) c)))))
      \<and> (\<not> keyed \<and> same \<longrightarrow>
          (\<exists>st1. closeSubPartial tops st = Inr st1
             \<and> c_dom (chunk_at (u_world st') c) = c_dom (chunk_at (u_world st1) (prevs ! index))
             \<and> dom_at (u_world st') = dom_at (u_world st1)
             \<and> next_node (u_world st') = next_node (u_world st1)
             \<and> tree (u_world st') = tree (u_world st1)
             \<and> u_main st' = u_main st1 \<and> u_sub st' = u_sub st1))
      \<and> (\<not> keyed \<and> \<not> same \<longrightarrow>
          add (c_tpl ch) (u_sub st, w) = Inr (u_sub st', u_world st')
          \<and> lastNode st' = lastNode st
          \<and> startChunking st' = (if p_l (u_sub st) = 0 then index else startChunking st)
          \<and> u_main st' = (u_main st)\<lparr> toRemove := toRemove (u_main st) @
                (if index < length prevs \<and> \<not> truthy_lit (c_key (chunk_at w (prevs ! index)))
                 then dom_at w (c_dom (chunk_at w (prevs ! index))) else []) \<rparr>)"
proof -
  let ?w = "u_world st"
  let ?prevs = "previousChunks (u_main st)"
  let ?keyed = "truthy_lit (c_key (chunk_at ?w c)) \<and> dom_at ?w (c_dom (chunk_at ?w c)) \<noteq> []"
  let ?same = "index < length ?prevs
      \<and> c_html (chunk_at ?w c) = c_html (chunk_at ?w (?prevs ! index))
      \<and> \<not> truthy_lit (c_key (chunk_at ?w (?prevs ! index)))"
  let ?prev = "if index < length ?prevs then Some (?prevs ! index) else None"
  have k: "?keyed \<Longrightarrow> keyed_branch tops index c ?prev st = Inr st'"
    using run by (simp add: up_chunk_def Let_def)
  have s: "\<not> ?keyed \<Longrightarrow> ?same \<Longrightarrow> reuse_branch tops c (?prevs ! index) st = Inr st'"
    using run by (auto simp: up_chunk_def Let_def)
  have r: "\<not> ?keyed \<Longrightarrow> \<not> ?same \<Longrightarrow> rebuild_branch index c ?prev st = Inr st'"
    using run by (auto simp: up_chunk_def Let_def split: if_splits)
  have r': "\<not> ?same \<Longrightarrow>
      (case ?prev of
         None \<Rightarrow> []
       | Some pr \<Rightarrow>
           if c_html (chunk_at ?w c) \<noteq> c_html (chunk_at ?w pr) \<and> \<not> truthy_lit (c_key (chunk_at ?w pr))
           then dom_at ?w (c_dom (chunk_at ?w pr)) else [])
      = (if index < length ?prevs \<and> \<not> truthy_lit (c_key (chunk_at ?w (?prevs ! index)))
         then dom_at ?w (c_dom (chunk_at ?w (?prevs ! index))) else [])"
    by auto
  have one: "?keyed \<longrightarrow>
          (\<exists>st1. closeSubPartial tops st = Inr st1
             \<and> chunk_at (u_world st') = chunk_at (u_world st1)
             \<and> dom_at (u_world st') = dom_at (u_world st1)
             \<and> next_node (u_world st') = next_node (u_world st1)
             \<and> u_main st' = u_main st1 \<and> u_sub st' = u_sub st1
             \<and> lastNode st' = last_of (dom_at (u_world st1) (c_dom (chunk_at (u_world st1) c))))"
    using keyed_branch_effect [OF k] by blast
  have two: "\<not> ?keyed \<and> ?same \<longrightarrow>
          (\<exists>st1. closeSubPartial tops st = Inr st1
             \<and> c_dom (chunk_at (u_world st') c) = c_dom (chunk_at (u_world st1) (?prevs ! index))
             \<and> dom_at (u_world st') = dom_at (u_world st1)
             \<and> next_node (u_world st') = next_node (u_world st1)
             \<and> tree (u_world st') = tree (u_world st1)
             \<and> u_main st' = u_main st1 \<and> u_sub st' = u_sub st1)"
    using reuse_branch_effect [OF s] by blast
  have three: "\<not> ?keyed \<and> \<not> ?same \<longrightarrow>
          add (c_tpl (chunk_at ?w c)) (u_sub st, ?w) = Inr (u_sub st', u_world st')
          \<and> lastNode st' = lastNode st
          \<and> startChunking st' = (if p_l (u_sub st) = 0 then index else startChunking st)
          \<and> u_main st' = (u_main st)\<lparr> toRemove := toRemove (u_main st) @
                (if index < length ?prevs \<and> \<not> truthy_lit (c_key (chunk_at ?w (?prevs ! index)))
                 then dom_at ?w (c_dom (chunk_at ?w (?prevs ! index))) else []) \<rparr>"
  proof (intro impI)
    assume a: "\<not> ?keyed \<and> \<not> ?same"
    then have nk: "\<not> ?keyed" and ns: "\<not> ?same" by blast+
    note eff = rebuild_branch_effect [OF r [OF nk ns]]
    from eff show
      "add (c_tpl (chunk_at ?w c)) (u_sub st, ?w) = Inr (u_sub st', u_world st')
          \<and> lastNode st' = lastNode st
          \<and> startChunking st' = (if p_l (u_sub st) = 0 then index else startChunking st)
          \<and> u_main st' = (u_main st)\<lparr> toRemove := toRemove (u_main st) @
                (if index < length ?prevs \<and> \<not> truthy_lit (c_key (chunk_at ?w (?prevs ! index)))
                 then dom_at ?w (c_dom (chunk_at ?w (?prevs ! index))) else []) \<rparr>"
      unfolding r' [OF ns] by blast
  qed
  from one two three show ?thesis
    unfolding Let_def by blast
qed

text \<open>C2, witness: the third rule at index 0 of the keyed scene.\<close>

theorem C2_rules_in_order_witness:
  "up_chunk tops1 0 4 keyed_scene = Inr (projr (up_chunk tops1 0 4 keyed_scene))
   \<and> previousChunks (u_main keyed_scene) = [0, 2]
   \<and> truthy_lit (c_key (chunk_at (u_world keyed_scene) 0))
   \<and> \<not> truthy_lit (c_key (chunk_at (u_world keyed_scene) 4))
   \<and> u_main (projr (up_chunk tops1 0 4 keyed_scene)) = u_main keyed_scene
   \<and> lastNode (projr (up_chunk tops1 0 4 keyed_scene)) = Some 0"
proof -
  have nl: "\<not> isl (up_chunk tops1 0 4 keyed_scene)"
    by (simp add: scene_defs)
  then have run: "up_chunk tops1 0 4 keyed_scene = Inr (projr (up_chunk tops1 0 4 keyed_scene))"
    by simp
  have facts: "previousChunks (u_main keyed_scene) = [0, 2]"
    "truthy_lit (c_key (chunk_at (u_world keyed_scene) 0))"
    "\<not> truthy_lit (c_key (chunk_at (u_world keyed_scene) 4))"
    "toRemove (u_main keyed_scene) = []"
    "lastNode keyed_scene = Some 0"
    by (simp_all add: scene_defs)
  from C2_rules_in_order [OF run] facts
  have "u_main (projr (up_chunk tops1 0 4 keyed_scene)) = u_main keyed_scene
      \<and> lastNode (projr (up_chunk tops1 0 4 keyed_scene)) = Some 0"
    by (simp add: Let_def)
  with run facts show ?thesis by blast
qed

text \<open>
  C7, the code at a failing input: three one-node chunks of group 7 are mounted
  as nodes 0, 1, 2; updating the partial with the string \<open>x\<close> puts the text
  node 3 in front and removes node 0 only. Nodes 1 and 2 follow the last
  chunk's node, carry the group and belong to no current chunk, and stay in the
  tree: the sub-partial returned a text node, whose \<^verbatim>\<open>lastChild\<close> is null, so
  the cursor is lost and the trailing walk does not start. Updating with one
  item of the first chunk's markup trims both trailing nodes.
\<close>

theorem C7_text_update_leaves_trailing_nodes:
  "(case mounted [li ''a'', li ''b'', li ''c''] of
      Inl x \<Rightarrow> False
    | Inr (p, w) \<Rightarrow>
        tree w = [0, 1, 2]
        \<and> map (\<lambda>c. dom_at w (c_dom (chunk_at w c))) (previousChunks p) = [[0], [1], [2]])
   \<and> (case then_set (Lit (Str ''x'')) (mounted [li ''a'', li ''b'', li ''c'']) of
        Inl x \<Rightarrow> False
      | Inr (p, w) \<Rightarrow>
          tree w = [3, 1, 2]
          \<and> map (\<lambda>c. dom_at w (c_dom (chunk_at w c))) (previousChunks p) = [[3]]
          \<and> p_group p = 7 \<and> 7 \<in> tags_of w 1 \<and> 7 \<in> tags_of w 2)
   \<and> (case then_set (Arr [li ''a'']) (mounted [li ''a'', li ''b'', li ''c'']) of
        Inl x \<Rightarrow> False
      | Inr (p, w) \<Rightarrow> tree w = [0])"
  by (simp add: scene_defs)


section \<open>Properties of the observable data layer\<close>

subsection \<open>Wrapping\<close>

lemma reactive_early:
  "isR s x \<or> \<not> is_object x \<Longrightarrow> reactive n x st s = Some (x, s)"
  by (cases n) auto

lemma set_parent_proxy_kept:
  assumes "heap s a = Some (Proxy px)" "a < next_addr s"
  shows "\<exists>px'. heap (set_parent b c child s) a = Some (Proxy px') \<and> a < next_addr (set_parent b c child s)"
  using assms
  by (auto simp: set_parent_def split: val.splits option.splits cell.splits)

lemma get_trap_heap [simp]: "heap (snd (get_trap a p s)) = heap s"
  "next_addr (snd (get_trap a p s)) = next_addr s"
  by (auto simp: get_trap_def addDep_def split: option.splits cell.splits)

lemma link_children_proxy_kept:
  assumes "heap s a = Some (Proxy px)" "a < next_addr s"
  shows "\<exists>px'. heap (link_children b cs s) a = Some (Proxy px')"
  using assms
proof (induction cs arbitrary: s px)
  case Nil
  then show ?case by simp
next
  case (Cons c cs)
  let ?s1 = "snd (get_trap b c s)"
  from Cons.prems have "heap ?s1 a = Some (Proxy px)" "a < next_addr ?s1" by simp_all
  from set_parent_proxy_kept [OF this, of b c "fst (get_trap b c s)"]
  obtain px' where "heap (set_parent b c (fst (get_trap b c s)) ?s1) a = Some (Proxy px')"
    "a < next_addr (set_parent b c (fst (get_trap b c s)) ?s1)" by blast
  from Cons.IH [OF this] show ?case by (simp add: Let_def)
qed

lemma reactive_Suc_shape:
  assumes "\<not> (isR s x \<or> \<not> is_object x)" "reactive (Suc m) x st s = Some (y, s')"
  shows "\<exists>a children s3 px. y = Ref a \<and> s' = link_children a children s3
           \<and> heap s3 a = Some (Proxy px) \<and> a < next_addr s3"
  using assms
  apply (clarsimp simp: Let_def split: option.splits)
   apply (rule exI, rule exI, rule conjI, rule refl, simp)+
  done

lemma reactive_result_isR:
  assumes "reactive n x st s = Some (y, s')"
  shows "isR s' y \<or> \<not> is_object y"
proof (cases "isR s x \<or> \<not> is_object x")
  case True
  with assms reactive_early [OF True, of n st] show ?thesis by auto
next
  case False
  with assms obtain m where n: "n = Suc m" by (cases n) auto
  from reactive_Suc_shape [OF False assms [unfolded n]] obtain a children s3 px where
    y: "y = Ref a" and s': "s' = link_children a children s3"
    and h: "heap s3 a = Some (Proxy px)" "a < next_addr s3"
    by blast
  from link_children_proxy_kept [OF h] obtain px' where
    "heap (link_children a children s3) a = Some (Proxy px')" by blast
  with y s' show ?thesis by (simp add: isR_def)
qed

text \<open>
  C9: wrapping is idempotent. Whenever wrapping a value returns, wrapping the
  result again (with any state argument and any bound) returns the very same
  value, the same reference for a proxy, and leaves the state as it is.
\<close>

theorem C9_wrap_idempotent:
  assumes "reactive n x st s = Some (y, s')"
  shows "reactive m y st' s' = Some (y, s')"
  using reactive_result_isR [OF assms] by (rule reactive_early)

text \<open>
  C8, the code at its inputs that are not objects: undefined, a boolean, a
  number, a string and a function come back unchanged and the state is not
  touched; null does not. \<^verbatim>\<open>typeof null\<close> is \<^verbatim>\<open>'object'\<close> and \<^verbatim>\<open>isR(null)\<close> is
  false, so \<^verbatim>\<open>r(null)\<close> runs on and returns a new proxy over an object without
  properties.
\<close>

theorem C8_null_is_wrapped:
  "reactive n (Prim Undefined) st s = Some (Prim Undefined, s)
   \<and> reactive n (Prim (Bool b)) st s = Some (Prim (Bool b), s)
   \<and> reactive n (Prim (Num i)) st s = Some (Prim (Num i), s)
   \<and> reactive n (Prim (Str x)) st s = Some (Prim (Str x), s)
   \<and> reactive n (Func f) st s = Some (Func f, s)
   \<and> reactive (Suc n) (Prim Null) (None, None) s =
       Some (Ref (Suc (next_addr s)),
             s\<lparr> regs := (regs s)(next_addr s := \<lparr> observers = [], observerProperties = [] \<rparr>),
                heap := (heap s)(Suc (next_addr s) \<mapsto>
                          Proxy \<lparr> source = [], isArray = False, registry_of = next_addr s,
                                  parent = None \<rparr>),
                next_addr := Suc (Suc (next_addr s)) \<rparr>)"
  by (simp add: reactive_early isR_def data_props_def Let_def)

subsection \<open>Writes\<close>

lemma map_of_map_set: "map_of (map_set k v m) k' = (if k' = k then Some v else map_of m k')"
  by (induction m) auto

lemma lookup_map_set: "lookup (map_set p v ps) p' = (if p' = p then v else lookup ps p')"
  by (simp add: lookup_def map_of_map_set)

lemma invoke_frame [simp]:
  "heap (invoke nv ov c s) = heap s"
  "regs (invoke nv ov c s) = regs s"
  "collector (invoke nv ov c s) = collector s"
  "currentDeps (invoke nv ov c s) = currentDeps s"
  "nextTicks (invoke nv ov c s) = nextTicks s"
  "next_addr (invoke nv ov c s) = next_addr s"
  "next_watch (invoke nv ov c s) = next_watch s"
  "trace (invoke nv ov c s) = trace s @ [Notified c nv ov]"
  by (cases c; simp add: queued_def Let_def)+

lemma fold_invoke_frame [simp]:
  "heap (fold (invoke nv ov) cs s) = heap s"
  "regs (fold (invoke nv ov) cs s) = regs s"
  "collector (fold (invoke nv ov) cs s) = collector s"
  "currentDeps (fold (invoke nv ov) cs s) = currentDeps s"
  "nextTicks (fold (invoke nv ov) cs s) = nextTicks s"
  "next_addr (fold (invoke nv ov) cs s) = next_addr s"
  "next_watch (fold (invoke nv ov) cs s) = next_watch s"
  "trace (fold (invoke nv ov) cs s) = trace s @ map (\<lambda>c. Notified c nv ov) cs"
  by (induction cs arbitrary: s; simp)+

lemma em_frame [simp]:
  "heap (em g p nv ov s) = heap s"
  "regs (em g p nv ov s) = regs s"
  "collector (em g p nv ov s) = collector s"
  "currentDeps (em g p nv ov s) = currentDeps s"
  "nextTicks (em g p nv ov s) = nextTicks s"
  "next_addr (em g p nv ov s) = next_addr s"
  "next_watch (em g p nv ov s) = next_watch s"
  "trace (em g p nv ov s) = trace s @ map (\<lambda>c. Notified c nv ov) (members (observers (regs s g)) p)"
  by (simp_all add: em_def)

lemma plain_write_trace:
  assumes "heap s a = Some (Proxy px)"
  shows "trace (plain_write a px property v s) =
     trace s
     @ (if lookup (source px) property \<noteq> v
        then map (\<lambda>c. Notified c v (lookup (source px) property))
               (members (observers (regs s (registry_of px))) property)
        else [])
     @ (case parent px of
          None \<Rightarrow> []
        | Some (name, pa) \<Rightarrow>
            (case heap s pa of
               Some (Proxy pp) \<Rightarrow>
                 map (\<lambda>c. Notified c (Ref pa) (Prim Undefined))
                   (members (observers (regs s (registry_of pp))) name)
             | _ \<Rightarrow> []))"
  using assms
  by (auto simp: plain_write_def Let_def split: option.splits cell.splits)

lemma plain_write_heap:
  "heap (plain_write a px property v s) =
     (heap s)(a \<mapsto> Proxy (px\<lparr> source := map_set property v (source px) \<rparr>))"
  "regs (plain_write a px property v s) = regs s"
  "collector (plain_write a px property v s) = collector s"
  "currentDeps (plain_write a px property v s) = currentDeps s"
  by (auto simp: plain_write_def Let_def split: option.splits cell.splits)

text \<open>
  C5: a plain write of a data property on a proxy (the name is not a dependency
  prop, and it is not the case that the new value is truthy and the old one
  reactive) succeeds and stores the value; the observers of the property are
  called with (new value, old value), in order, if and only if the two differ;
  then, when the proxy has a parent link, the observers that the parent keeps
  for the name of the link are called with the parent as new value. Nothing
  else is called: no observer of a grandparent is reached by the write.
\<close>

theorem C5_plain_write_notifies:
  assumes "heap s a = Some (Proxy px)"
    and "property \<notin> depProps"
    and "\<not> (truthy_val v \<and> isR s (lookup (source px) property))"
  shows "\<exists>s'. set_trap n a property v s = Some (Inr s')
     \<and> heap s' = (heap s)(a \<mapsto> Proxy (px\<lparr> source := map_set property v (source px) \<rparr>))
     \<and> lookup (map_set property v (source px)) property = v
     \<and> regs s' = regs s
     \<and> trace s' =
         trace s
         @ (if lookup (source px) property \<noteq> v
            then map (\<lambda>c. Notified c v (lookup (source px) property))
                   (members (observers (regs s (registry_of px))) property)
            else [])
         @ (case parent px of
              None \<Rightarrow> []
            | Some (name, pa) \<Rightarrow>
                (case heap s pa of
                   Some (Proxy pp) \<Rightarrow>
                     map (\<lambda>c. Notified c (Ref pa) (Prim Undefined))
                       (members (observers (regs s (registry_of pp))) name)
                 | _ \<Rightarrow> []))"
proof -
  from assms have "set_trap n a property v s = Some (Inr (plain_write a px property v s))"
    by (auto simp: set_trap_def)
  with plain_write_trace [OF assms(1), of property v] plain_write_heap [of a px property v s]
  show ?thesis by (simp add: lookup_map_set)
qed


section \<open>Properties of watches\<close>


lemma members_map_set: "members (map_set k v m) k' = (if k' = k then v else members m k')"
  by (simp add: members_def map_of_map_set)

lemma keys_map_set:
  "map fst (map_set k v m) = (if k \<in> fst ` set m then map fst m else map fst m @ [k])"
  by (induction m) (force simp: image_iff)+

lemma distinct_map_set: "distinct (map fst m) \<Longrightarrow> distinct (map fst (map_set k v m))"
  by (simp add: keys_map_set)

lemma in_set_distinct_members:
  "distinct (map fst m) \<Longrightarrow> (k, xs) \<in> set m \<Longrightarrow> members m k = xs"
  by (simp add: members_def)

lemma set_set_add [simp]: "set (set_add x xs) = insert x (set xs)"
  by (auto simp: set_add_def)

lemma set_set_delete [simp]: "set (set_delete x xs) = set xs - {x}"
  by (auto simp: set_delete_def)

subsection \<open>Tracking\<close>

lemma get_trap_frame [simp]:
  "heap (snd (get_trap a p s)) = heap s"
  "regs (snd (get_trap a p s)) = regs s"
  "queueStack (snd (get_trap a p s)) = queueStack s"
  "nextTicks (snd (get_trap a p s)) = nextTicks s"
  "timers (snd (get_trap a p s)) = timers s"
  "currentDeps (snd (get_trap a p s)) = currentDeps s"
  "trace (snd (get_trap a p s)) = trace s"
  "next_addr (snd (get_trap a p s)) = next_addr s"
  "next_watch (snd (get_trap a p s)) = next_watch s"
  by (auto simp: get_trap_def addDep_def split: option.splits cell.splits)

lemma get_trap_value: "heap s = heap s' \<Longrightarrow> fst (get_trap a p s) = fst (get_trap a p s')"
  by (auto simp: get_trap_def split: option.splits cell.splits)

lemma run_frame [simp]:
  "heap (snd (run ex s)) = heap s"
  "regs (snd (run ex s)) = regs s"
  "queueStack (snd (run ex s)) = queueStack s"
  "nextTicks (snd (run ex s)) = nextTicks s"
  "timers (snd (run ex s)) = timers s"
  "currentDeps (snd (run ex s)) = currentDeps s"
  "trace (snd (run ex s)) = trace s"
  "next_addr (snd (run ex s)) = next_addr s"
  "next_watch (snd (run ex s)) = next_watch s"
  by (induction ex arbitrary: s; simp add: split_beta)+

lemma run_value: "heap s = heap s' \<Longrightarrow> fst (run ex s) = fst (run ex s')"
proof (induction ex arbitrary: s s')
  case (Ret v)
  then show ?case by simp
next
  case (Get a p k)
  have h: "heap (snd (get_trap a p s)) = heap (snd (get_trap a p s'))"
    using Get.prems by simp
  have v: "fst (get_trap a p s) = fst (get_trap a p s')"
    using Get.prems by (rule get_trap_value)
  from Get.IH [OF rangeI h, of "fst (get_trap a p s)"] v
  show ?case by (simp add: split_beta)
qed

lemma reads_heap: "heap s = heap s' \<Longrightarrow> reads ex s = reads ex s'"
proof (induction ex arbitrary: s s')
  case (Ret v)
  then show ?case by simp
next
  case (Get a p k)
  have h: "heap (snd (get_trap a p s)) = heap (snd (get_trap a p s'))"
    using Get.prems by simp
  have v: "fst (get_trap a p s) = fst (get_trap a p s')"
    using Get.prems by (rule get_trap_value)
  from Get.IH [OF rangeI h, of "fst (get_trap a p s)"] v Get.prems
  show ?case by (simp add: split_beta)
qed

lemma get_trap_collector:
  "collector (snd (get_trap a p s)) =
     map (\<lambda>td. (fst td, tracked (case heap s a of
                                  Some (Proxy px) \<Rightarrow> if p \<in> depProps then [] else [(a, p)]
                                | _ \<Rightarrow> []) (snd td))) (collector s)"
  by (auto simp: get_trap_def addDep_def tracked_def split: option.splits cell.splits)

lemma run_collector:
  "collector (snd (run ex s)) =
     map (\<lambda>td. (fst td, tracked (reads ex s) (snd td))) (collector s)"
proof (induction ex arbitrary: s)
  case (Ret v)
  then show ?case by (simp add: tracked_def)
next
  case (Get a p k)
  show ?case
    by (simp add: split_beta Get.IH [OF rangeI] get_trap_collector tracked_def o_def)
qed

lemma members_map: 
  "members (map (\<lambda>td. (fst td, f (snd td))) m) k =
     (case map_of m k of None \<Rightarrow> [] | Some xs \<Rightarrow> f xs)"
  by (induction m) (auto simp: members_def)

lemma members_track:
  "members (track a p deps) b = (if b = a then set_add p (members deps a) else members deps b)"
  by (simp add: track_def members_map_set)

lemma members_tracked:
  "set (members (tracked rs deps) a) = {p. (a, p) \<in> set rs} \<union> set (members deps a)"
proof (induction rs arbitrary: deps)
  case Nil
  then show ?case by (simp add: tracked_def)
next
  case (Cons ap rs)
  have "tracked (ap # rs) deps = tracked rs (track (fst ap) (snd ap) deps)"
    by (simp add: tracked_def)
  then show ?case
    by (cases ap) (auto simp: Cons.IH members_track)
qed

lemma distinct_tracked:
  "distinct (map fst deps) \<Longrightarrow> distinct (map fst (tracked rs deps))"
proof (induction rs arbitrary: deps)
  case Nil
  then show ?case by (simp add: tracked_def)
next
  case (Cons ap rs)
  have "tracked (ap # rs) deps = tracked rs (track (fst ap) (snd ap) deps)"
    by (simp add: tracked_def)
  with Cons show ?case by (simp add: track_def distinct_map_set)
qed

lemma pairs_members:
  "distinct (map fst deps) \<Longrightarrow> pairs deps = {(a, p). p \<in> set (members deps a)}"
  by (auto simp: pairs_def members_def split: option.splits)

lemma members_Nil [simp]: "members [] k = []"
  by (simp add: members_def)

lemma pairs_tracked: "pairs (tracked rs []) = set rs"
proof -
  have "pairs (tracked rs []) = {(a, p). p \<in> set (members (tracked rs []) a)}"
    by (rule pairs_members) (simp add: distinct_tracked)
  also have "\<dots> = set rs"
    by (auto simp: members_tracked)
  finally show ?thesis .
qed

subsection \<open>Subscribing and unsubscribing\<close>

lemma obs_dep_add:
  "set (members (observers (dep_add p c g)) p') =
     (if p' = p then insert c (set (members (observers g) p)) else set (members (observers g) p'))"
  by (simp add: dep_add_def members_map_set)

lemma obs_dep_delete:
  "set (members (observers (dep_delete p c g)) p') =
     (if p' = p then set (members (observers g) p) - {c} else set (members (observers g) p'))"
  by (simp add: dep_delete_def members_map_set)

lemma on_frame [simp]:
  "heap (on a p c s) = heap s" "queueStack (on a p c s) = queueStack s"
  "timers (on a p c s) = timers s" "trace (on a p c s) = trace s"
  "collector (on a p c s) = collector s" "currentDeps (on a p c s) = currentDeps s"
  "nextTicks (on a p c s) = nextTicks s"
  by (auto simp: on_def split: option.splits cell.splits)

lemma off_frame [simp]:
  "heap (off a p c s) = heap s" "queueStack (off a p c s) = queueStack s"
  "timers (off a p c s) = timers s" "trace (off a p c s) = trace s"
  "collector (off a p c s) = collector s" "currentDeps (off a p c s) = currentDeps s"
  "nextTicks (off a p c s) = nextTicks s"
  by (auto simp: off_def split: option.splits cell.splits)

lemma obs_on:
  "obs (on a p c s) g p' =
     (if maps_at s a = Some g \<and> p' = p then insert c (obs s g p') else obs s g p')"
  by (auto simp: on_def obs_def maps_at_def obs_dep_add split: option.splits cell.splits)

lemma obs_off:
  "obs (off a p c s) g p' =
     (if maps_at s a = Some g \<and> p' = p then obs s g p' - {c} else obs s g p')"
  by (auto simp: off_def obs_def maps_at_def obs_dep_delete split: option.splits cell.splits)

lemma maps_at_on [simp]: "maps_at (on a p c s) = maps_at s"
  by (rule ext) (simp add: maps_at_def)

lemma maps_at_off [simp]: "maps_at (off a p c s) = maps_at s"
  by (rule ext) (simp add: maps_at_def)

lemma fold_on_frame [simp]:
  "heap (fold (\<lambda>p. on a p c) ps s) = heap s"
  "queueStack (fold (\<lambda>p. on a p c) ps s) = queueStack s"
  "timers (fold (\<lambda>p. on a p c) ps s) = timers s"
  "trace (fold (\<lambda>p. on a p c) ps s) = trace s"
  "collector (fold (\<lambda>p. on a p c) ps s) = collector s"
  "currentDeps (fold (\<lambda>p. on a p c) ps s) = currentDeps s"
  "nextTicks (fold (\<lambda>p. on a p c) ps s) = nextTicks s"
  "maps_at (fold (\<lambda>p. on a p c) ps s) = maps_at s"
  by (induction ps arbitrary: s; simp)+

lemma fold_off_frame [simp]:
  "heap (fold (\<lambda>p. off a p c) ps s) = heap s"
  "queueStack (fold (\<lambda>p. off a p c) ps s) = queueStack s"
  "timers (fold (\<lambda>p. off a p c) ps s) = timers s"
  "trace (fold (\<lambda>p. off a p c) ps s) = trace s"
  "collector (fold (\<lambda>p. off a p c) ps s) = collector s"
  "currentDeps (fold (\<lambda>p. off a p c) ps s) = currentDeps s"
  "nextTicks (fold (\<lambda>p. off a p c) ps s) = nextTicks s"
  "maps_at (fold (\<lambda>p. off a p c) ps s) = maps_at s"
  by (induction ps arbitrary: s; simp)+

lemma obs_fold_on:
  "obs (fold (\<lambda>p. on a p c) ps s) g p' =
     (if maps_at s a = Some g \<and> p' \<in> set ps then insert c (obs s g p') else obs s g p')"
  by (induction ps arbitrary: s) (auto simp: obs_on)

lemma obs_fold_off:
  "obs (fold (\<lambda>p. off a p c) ps s) g p' =
     (if maps_at s a = Some g \<and> p' \<in> set ps then obs s g p' - {c} else obs s g p')"
  by (induction ps arbitrary: s) (auto simp: obs_off)

lemma observe_frame [simp]:
  "heap (observe c deps s) = heap s"
  "queueStack (observe c deps s) = queueStack s"
  "timers (observe c deps s) = timers s"
  "trace (observe c deps s) = trace s"
  "collector (observe c deps s) = collector s"
  "currentDeps (observe c deps s) = currentDeps s"
  "nextTicks (observe c deps s) = nextTicks s"
  "maps_at (observe c deps s) = maps_at s"
  by (induction c deps s rule: observe.induct; simp)+

lemma unobserve_frame [simp]:
  "heap (unobserve c nd deps s) = heap s"
  "queueStack (unobserve c nd deps s) = queueStack s"
  "timers (unobserve c nd deps s) = timers s"
  "trace (unobserve c nd deps s) = trace s"
  "collector (unobserve c nd deps s) = collector s"
  "currentDeps (unobserve c nd deps s) = currentDeps s"
  "nextTicks (unobserve c nd deps s) = nextTicks s"
  "maps_at (unobserve c nd deps s) = maps_at s"
  by (induction c nd deps s rule: unobserve.induct; simp)+

lemma obs_observe:
  "obs (observe c deps s) g p =
     (if \<exists>a. (a, p) \<in> pairs deps \<and> maps_at s a = Some g then insert c (obs s g p)
      else obs s g p)"
proof (induction c deps s rule: observe.induct)
  case (1 c s)
  then show ?case by (simp add: pairs_def)
next
  case (2 c a ps rest s)
  have p: "pairs ((a, ps) # rest) = {(a, q) | q. q \<in> set ps} \<union> pairs rest"
    by (auto simp: pairs_def)
  show ?case
    by (auto simp: "2.IH" obs_fold_on p)
qed

lemma obs_unobserve:
  "obs (unobserve c nd deps s) g p =
     (if \<exists>a. (a, p) \<in> pairs deps \<and> p \<notin> set (members nd a) \<and> maps_at s a = Some g
      then obs s g p - {c} else obs s g p)"
proof (induction c nd deps s rule: unobserve.induct)
  case (1 c nd s)
  then show ?case by (simp add: pairs_def)
next
  case (2 c nd a ps rest s)
  have p: "pairs ((a, ps) # rest) = {(a, q) | q. q \<in> set ps} \<union> pairs rest"
    by (auto simp: pairs_def)
  show ?case
    by (auto simp: "2.IH" obs_fold_off p)
qed

lemma reads_proxy: "(b, p) \<in> set (reads ex s) \<Longrightarrow> maps_at s b \<noteq> None"
proof (induction ex arbitrary: s)
  case (Ret v)
  then show ?case by simp
next
  case (Get a q k)
  from Get.prems consider
    (here) "(b, p) \<in> set (case heap s a of
        Some (Proxy px) \<Rightarrow> if q \<in> depProps then [] else [(a, q)]
      | _ \<Rightarrow> [])"
    | (later) "(b, p) \<in> set (reads (k (fst (get_trap a q s))) (snd (get_trap a q s)))"
    by (auto simp: split_beta)
  then show ?case
  proof cases
    case here
    then show ?thesis
      by (cases "heap s a") (auto simp: maps_at_def split: cell.splits if_splits)
  next
    case later
    from Get.IH [OF rangeI later] show ?thesis by (simp add: maps_at_def)
  qed
qed

lemma maps_at_heap: "heap s = heap s' \<Longrightarrow> maps_at s = maps_at s'"
  by (rule ext) (simp add: maps_at_def)

lemma obs_regs: "regs s = regs s' \<Longrightarrow> obs s = obs s'"
  by (rule ext)+ (simp add: obs_def)

lemma subscribed_obs:
  "subscribed s c a p \<longleftrightarrow> (\<exists>g. maps_at s a = Some g \<and> c \<in> obs s g p)"
  by (auto simp: subscribed_def maps_at_def obs_def split: option.splits cell.splits)

lemma callFn_track_unfold:
  defines "nd \<equiv> \<lambda>code w s. tracked (reads (fn (code w)) s) []"
  shows "fst (callFn_track code w s) = fst (run (fn (code w)) s)"
    and "heap (snd (callFn_track code w s)) = heap s"
    and "currentDeps (snd (callFn_track code w s)) = (currentDeps s)(w := nd code w s)"
    and "trace (snd (callFn_track code w s)) = trace s @ [Evaluated w (fst (run (fn (code w)) s))]"
    and "queueStack (snd (callFn_track code w s)) = queueStack s"
    and "timers (snd (callFn_track code w s)) = timers s"
    and "nextTicks (snd (callFn_track code w s)) = nextTicks s"
    and "maps_at (snd (callFn_track code w s)) = maps_at s"
    and "obs (snd (callFn_track code w s)) g p =
       (let o1 = (if \<exists>a. (a, p) \<in> pairs (currentDeps s w) \<and> p \<notin> set (members (nd code w s) a)
                        \<and> maps_at s a = Some g
                  then obs s g p - {Queued w} else obs s g p)
        in if \<exists>a. (a, p) \<in> pairs (nd code w s) \<and> maps_at s a = Some g
           then insert (Queued w) o1 else o1)"
proof -
  let ?s1 = "s\<lparr> collector := map_set w [] (collector s) \<rparr>"
  let ?res = "run (fn (code w)) ?s1"
  have h1: "heap ?s1 = heap s" by simp
  have v: "fst ?res = fst (run (fn (code w)) s)"
    by (rule run_value) simp
  have r: "reads (fn (code w)) ?s1 = reads (fn (code w)) s"
    by (rule reads_heap) simp
  have newDeps: "members (collector (snd ?res)) w = nd code w s"
    by (simp add: run_collector members_map map_of_map_set r nd_def)
  let ?s2 = "(snd ?res)\<lparr> trace := trace (snd ?res) @ [Evaluated w (fst ?res)] \<rparr>"
  let ?s3 = "?s2\<lparr> collector := map_delete w (collector ?s2) \<rparr>"
  have m3: "maps_at ?s3 = maps_at s"
    by (rule maps_at_heap) simp
  have o3: "obs ?s3 = obs s"
    by (rule obs_regs) simp
  have cf: "callFn_track code w s =
      (fst ?res,
       (observe (Queued w) (nd code w s)
          (unobserve (Queued w) (nd code w s) (currentDeps s w) ?s3))
         \<lparr> currentDeps :=
             (currentDeps (observe (Queued w) (nd code w s)
                (unobserve (Queued w) (nd code w s) (currentDeps s w) ?s3)))
             (w := nd code w s) \<rparr>)"
    using newDeps by (simp add: callFn_track_def Let_def)
  show "fst (callFn_track code w s) = fst (run (fn (code w)) s)"
    by (simp add: cf v)
  show "heap (snd (callFn_track code w s)) = heap s"
    by (simp add: cf)
  show "currentDeps (snd (callFn_track code w s)) = (currentDeps s)(w := nd code w s)"
    by (simp add: cf)
  show "trace (snd (callFn_track code w s)) = trace s @ [Evaluated w (fst (run (fn (code w)) s))]"
    by (simp add: cf v)
  show "queueStack (snd (callFn_track code w s)) = queueStack s"
    by (simp add: cf)
  show "timers (snd (callFn_track code w s)) = timers s"
    by (simp add: cf)
  show "nextTicks (snd (callFn_track code w s)) = nextTicks s"
    by (simp add: cf)
  show "maps_at (snd (callFn_track code w s)) = maps_at s"
    by (rule ext) (simp add: cf maps_at_def)
  show "obs (snd (callFn_track code w s)) g p =
       (let o1 = (if \<exists>a. (a, p) \<in> pairs (currentDeps s w) \<and> p \<notin> set (members (nd code w s) a)
                        \<and> maps_at s a = Some g
                  then obs s g p - {Queued w} else obs s g p)
        in if \<exists>a. (a, p) \<in> pairs (nd code w s) \<and> maps_at s a = Some g
           then insert (Queued w) o1 else o1)"
  proof -
    let ?u = "unobserve (Queued w) (nd code w s) (currentDeps s w) ?s3"
    let ?o = "observe (Queued w) (nd code w s) ?u"
    have "obs (snd (callFn_track code w s)) g p = obs ?o g p"
      by (simp add: cf obs_def)
    also have "\<dots> = (if \<exists>a. (a, p) \<in> pairs (nd code w s) \<and> maps_at ?u a = Some g
                      then insert (Queued w) (obs ?u g p) else obs ?u g p)"
      by (rule obs_observe)
    also have "maps_at ?u = maps_at s"
      by (rule maps_at_heap) simp
    also have "obs ?u g p =
        (if \<exists>a. (a, p) \<in> pairs (currentDeps s w) \<and> p \<notin> set (members (nd code w s) a)
                        \<and> maps_at ?s3 a = Some g
                  then obs ?s3 g p - {Queued w} else obs ?s3 g p)"
      by (rule obs_unobserve)
    finally show ?thesis
      unfolding m3 o3 Let_def .
  qed
qed

lemma callFn_track_subscribed:
  assumes sync: "\<forall>a p. subscribed s (Queued w) a p
                   \<longleftrightarrow> (\<exists>b. (b, p) \<in> pairs (currentDeps s w) \<and> same_maps s a b)"
  shows "subscribed (snd (callFn_track code w s)) (Queued w) a p
           \<longleftrightarrow> (\<exists>b. (b, p) \<in> set (reads (fn (code w)) s) \<and> same_maps s a b)"
proof (cases "maps_at s a")
  case None
  then show ?thesis
    by (simp add: subscribed_obs callFn_track_unfold(8) same_maps_def)
next
  case (Some g)
  let ?res = "callFn_track code w s"
  let ?rs = "reads (fn (code w)) s"
  let ?nd = "tracked ?rs []"
  note u = callFn_track_unfold [of code w s]
  have nd: "pairs ?nd = set ?rs" by (rule pairs_tracked)
  have ndm: "p \<in> set (members ?nd a) \<longleftrightarrow> (a, p) \<in> set ?rs" for a p
    by (simp add: members_tracked)
  have old: "Queued w \<in> obs s g p
      \<longleftrightarrow> (\<exists>b. (b, p) \<in> pairs (currentDeps s w) \<and> maps_at s b = Some g)"
    using sync [rule_format, of a p] Some
    by (auto simp: subscribed_obs same_maps_def)
  have "subscribed (snd ?res) (Queued w) a p \<longleftrightarrow> Queued w \<in> obs (snd ?res) g p"
    by (simp add: subscribed_obs u(8) Some)
  also have "\<dots> \<longleftrightarrow> (\<exists>b. (b, p) \<in> set ?rs \<and> maps_at s b = Some g)"
    unfolding u(9) Let_def nd ndm using old by auto
  also have "\<dots> \<longleftrightarrow> (\<exists>b. (b, p) \<in> set ?rs \<and> same_maps s a b)"
    using Some by (auto simp: same_maps_def)
  finally show ?thesis .
qed

text \<open>
  The condition under which the subscriptions follow the reads is kept by an
  evaluation and by a plain write; it is what a state transfer breaks.
\<close>

lemma callFn_track_in_step:
  assumes sync: "\<forall>a p. subscribed s (Queued w) a p
                   \<longleftrightarrow> (\<exists>b. (b, p) \<in> pairs (currentDeps s w) \<and> same_maps s a b)"
  shows "\<forall>a p. subscribed (snd (callFn_track code w s)) (Queued w) a p
           \<longleftrightarrow> (\<exists>b. (b, p) \<in> pairs (currentDeps (snd (callFn_track code w s)) w)
                     \<and> same_maps (snd (callFn_track code w s)) a b)"
proof -
  note u = callFn_track_unfold [of code w s]
  have cur: "pairs (currentDeps (snd (callFn_track code w s)) w) = set (reads (fn (code w)) s)"
    by (simp add: u(3) pairs_tracked)
  have sm: "same_maps (snd (callFn_track code w s)) = same_maps s"
    by (rule ext)+ (simp add: same_maps_def u(8))
  show ?thesis
    unfolding cur sm using callFn_track_subscribed [OF sync] by blast
qed

lemma plain_write_in_step:
  assumes px: "heap s a = Some (Proxy px)"
    and sync: "\<forall>b q. subscribed s (Queued w) b q
                   \<longleftrightarrow> (\<exists>c. (c, q) \<in> pairs (currentDeps s w) \<and> same_maps s b c)"
  shows "\<forall>b q. subscribed (plain_write a px p v s) (Queued w) b q
           \<longleftrightarrow> (\<exists>c. (c, q) \<in> pairs (currentDeps (plain_write a px p v s) w)
                     \<and> same_maps (plain_write a px p v s) b c)"
proof -
  let ?s' = "plain_write a px p v s"
  have m: "maps_at ?s' = maps_at s"
    using px by (auto simp: maps_at_def plain_write_heap(1) fun_eq_iff)
  have o: "obs ?s' = obs s"
    by (rule obs_regs) (rule plain_write_heap(2))
  have sm: "same_maps ?s' = same_maps s"
    by (rule ext)+ (simp add: same_maps_def m)
  have sub: "subscribed ?s' (Queued w) = subscribed s (Queued w)"
    by (rule ext)+ (simp add: subscribed_obs m o)
  show ?thesis
    unfolding sub sm plain_write_heap(4) using sync .
qed

text \<open>
  C4 (amended). A pair is taken up to the sharing of observer maps: a proxy made
  by a state transfer works on the maps of the proxy it replaced, and being
  subscribed to a property of one is being subscribed to it on the other. If,
  when an evaluation of a watch starts, its queued callback is subscribed to
  exactly the pairs of \<^verbatim>\<open>currentDeps\<close> (up to sharing), then after the two
  loops of \<^verbatim>\<open>callFn\<close> it is subscribed to exactly the pairs read during the
  evaluation (up to sharing), \<^verbatim>\<open>currentDeps\<close> holds exactly the pairs read,
  so that the condition holds again, and \<^verbatim>\<open>after\<close>, when given, is applied
  to the value in the state in which the subscriptions are complete. If
  moreover no two proxies share their maps, the pairs subscribed to are
  literally the pairs read.
\<close>

theorem C4_subscriptions_follow_reads:
  assumes sync: "\<forall>a p. subscribed s (Queued w) a p
                   \<longleftrightarrow> (\<exists>b. (b, p) \<in> pairs (currentDeps s w) \<and> same_maps s a b)"
  shows "let res = callFn_track code w s; rs = reads (fn (code w)) s
     in fst res = fst (run (fn (code w)) s)
        \<and> trace (snd res) = trace s @ [Evaluated w (fst res)]
        \<and> heap (snd res) = heap s
        \<and> pairs (currentDeps (snd res) w) = set rs
        \<and> (\<forall>a p. subscribed (snd res) (Queued w) a p
                   \<longleftrightarrow> (\<exists>b. (b, p) \<in> set rs \<and> same_maps s a b))
        \<and> ((\<forall>a b. same_maps s a b \<longrightarrow> a = b)
             \<longrightarrow> (\<forall>a p. subscribed (snd res) (Queued w) a p \<longleftrightarrow> (a, p) \<in> set rs))
        \<and> (\<forall>a p. subscribed (snd res) (Queued w) a p
                   \<longleftrightarrow> (\<exists>b. (b, p) \<in> pairs (currentDeps (snd res) w) \<and> same_maps (snd res) a b))
        \<and> callFn code w s = (case after (code w) of None \<Rightarrow> res | Some f \<Rightarrow> f (fst res) (snd res))"
proof -
  let ?res = "callFn_track code w s"
  let ?rs = "reads (fn (code w)) s"
  note u = callFn_track_unfold [of code w s]
  note sub = callFn_track_subscribed [OF sync, of code]
  have unshared: "(\<forall>a b. same_maps s a b \<longrightarrow> a = b)
      \<longrightarrow> (\<forall>a p. subscribed (snd ?res) (Queued w) a p \<longleftrightarrow> (a, p) \<in> set ?rs)"
  proof (intro impI allI)
    fix a p
    assume inj: "\<forall>a b. same_maps s a b \<longrightarrow> a = b"
    show "subscribed (snd ?res) (Queued w) a p \<longleftrightarrow> (a, p) \<in> set ?rs"
    proof
      assume "subscribed (snd ?res) (Queued w) a p"
      with sub obtain b where "(b, p) \<in> set ?rs" "same_maps s a b" by blast
      with inj show "(a, p) \<in> set ?rs" by blast
    next
      assume r: "(a, p) \<in> set ?rs"
      from reads_proxy [OF r] have "same_maps s a a" by (simp add: same_maps_def)
      with r sub show "subscribed (snd ?res) (Queued w) a p" by blast
    qed
  qed
  have cur: "pairs (currentDeps (snd ?res) w) = set ?rs"
    by (simp add: u(3) pairs_tracked)
  have call: "callFn code w s =
      (case after (code w) of None \<Rightarrow> ?res | Some f \<Rightarrow> f (fst ?res) (snd ?res))"
    by (simp add: callFn_def split: option.splits)
  note again = callFn_track_in_step [OF sync, of code]
  from u(1) u(2) u(4) cur sub unshared again call show ?thesis
    unfolding Let_def by (intro conjI) simp_all
qed


subsection \<open>The scheduler\<close>


lemma evaluations_Notified [simp]: "evaluations i (map (\<lambda>c. Notified c nv ov) cs) = []"
  by (induction cs) simp_all

lemma evaluations_Ticked [simp]: "evaluations i (map Ticked ks) = []"
  by (induction ks) simp_all


lemma set_add_not_Nil [simp]: "set_add x xs \<noteq> []"
  by (auto simp: set_add_def)


lemma sched_ok_trace [simp]: "sched_ok (s\<lparr> trace := tr \<rparr>) = sched_ok s"
  by (simp add: sched_ok_def)






lemma sched_ok_heap [simp]: "sched_ok (s\<lparr> heap := h \<rparr>) = sched_ok s"
  by (simp add: sched_ok_def)









section \<open>The scenes of the reactive layer\<close>


lemmas reactive_scene_defs = data_scene_def wrapped_scene_def flag_watch_def watched_scene_def
  assigned_scene_def flushed_scene_def watch_def callFn_def callFn_track_def Let_def isR_def
  data_props_def get_trap_def set_parent_def addDep_def track_def members_def set_add_def
  set_delete_def map_delete_def lookup_def on_def off_def dep_add_def dep_delete_def
  depProps_def set_trap_def plain_write_def state_transfer_def reactiveMerge_def em_def
  queued_def executeQueue_def run_timer_def subscribed_def maps_at_def same_maps_def pairs_def

text \<open>
  C4, as stated, fails after a state transfer. The watch of
  \<^verbatim>\<open>() => data.flag ? data.a.x : 0\<close> has read \<open>flag\<close>, \<open>a\<close> and \<open>a.x\<close>. In
  one turn \<^verbatim>\<open>data.flag = false\<close> and \<^verbatim>\<open>data.a = data.b\<close> are written; the
  second write merges the observers of the old \<open>a\<close> into the proxy of \<open>b\<close>
  (at 6). The re-evaluation in the flush reads \<open>flag\<close> only and unsubscribes
  from what \<^verbatim>\<open>currentDeps\<close> held, but the callback stays subscribed to
  \<open>x\<close> of the proxy at 6, a pair it has not read.
\<close>

theorem C4_merged_subscription_counterexample:
  "trace assigned_scene =
     [Evaluated 0 (Prim (Num 1)),
      Notified (Queued 0) (Prim (Bool False)) (Prim (Bool True)),
      Notified (Queued 0) (Ref 6) (Prim Undefined),
      Notified (Queued 0) (Prim (Num 2)) (Prim (Num 1))]
   \<and> trace flushed_scene = trace assigned_scene @ [Evaluated 0 (Prim (Num 0))]
   \<and> reads (fn (flag_watch 0)) assigned_scene = [(8, ''flag'')]
   \<and> currentDeps flushed_scene 0 = [(8, [''flag''])]
   \<and> subscribed flushed_scene (Queued 0) 6 ''x''
   \<and> \<not> same_maps flushed_scene 6 8"
  by (simp add: reactive_scene_defs)


text \<open>
  C4, witness: a re-run that unsubscribes. After \<^verbatim>\<open>data.flag = false\<close> on the
  watched data the callback is still subscribed to \<open>flag\<close>, \<open>a\<close> and
  \<open>a.x\<close>, the pairs of \<^verbatim>\<open>currentDeps\<close>; the re-run reads \<open>flag\<close> only
  and leaves the callback subscribed to \<open>flag\<close> alone.
\<close>

theorem C4_subscriptions_follow_reads_witness:
  "(\<forall>a p. subscribed toggled_scene (Queued 0) a p
      \<longleftrightarrow> (\<exists>b. (b, p) \<in> pairs (currentDeps toggled_scene 0) \<and> same_maps toggled_scene a b))
   \<and> pairs (currentDeps toggled_scene 0) = {(8, ''flag''), (8, ''a''), (4, ''x'')}
   \<and> subscribed toggled_scene (Queued 0) 8 ''a''
   \<and> subscribed toggled_scene (Queued 0) 4 ''x''
   \<and> reads (fn (flag_watch 0)) toggled_scene = [(8, ''flag'')]
   \<and> pairs (currentDeps (snd (callFn_track flag_watch 0 toggled_scene)) 0) = {(8, ''flag'')}
   \<and> subscribed (snd (callFn_track flag_watch 0 toggled_scene)) (Queued 0) 8 ''flag''
   \<and> \<not> subscribed (snd (callFn_track flag_watch 0 toggled_scene)) (Queued 0) 8 ''a''
   \<and> \<not> subscribed (snd (callFn_track flag_watch 0 toggled_scene)) (Queued 0) 4 ''x''"
proof -
  let ?pre = "wrapped_scene\<lparr> next_watch := Suc 0, collector := [(0, [])],
                             currentDeps := (currentDeps wrapped_scene)(0 := []) \<rparr>"
  have none: "observers (regs wrapped_scene g) = []" for g
    by (simp add: reactive_scene_defs)
  have sync0: "\<forall>a p. subscribed ?pre (Queued 0) a p
      \<longleftrightarrow> (\<exists>b. (b, p) \<in> pairs (currentDeps ?pre 0) \<and> same_maps ?pre a b)"
    by (simp add: subscribed_def none pairs_def members_def split: option.splits cell.splits)
  have nw: "next_watch wrapped_scene = 0" "collector wrapped_scene = []"
    by (simp_all add: data_scene_def wrapped_scene_def isR_def data_props_def get_trap_def
          set_parent_def addDep_def lookup_def depProps_def Let_def)
  have w: "watched_scene = snd (callFn_track flag_watch 0 ?pre)"
    by (simp add: watched_scene_def watch_def callFn_def flag_watch_def nw Let_def)
  have sync1: "\<forall>a p. subscribed watched_scene (Queued 0) a p
      \<longleftrightarrow> (\<exists>b. (b, p) \<in> pairs (currentDeps watched_scene 0) \<and> same_maps watched_scene a b)"
    unfolding w by (rule callFn_track_in_step [OF sync0])
  let ?px = "\<lparr> source = [(''flag'', Prim (Bool True)), (''a'', Ref 4), (''b'', Ref 6)],
                isArray = False, registry_of = 7, parent = None \<rparr>"
  have h: "heap watched_scene 8 = Some (Proxy ?px)"
    by (simp add: reactive_scene_defs)
  have tg: "toggled_scene = plain_write 8 ?px ''flag'' (Prim (Bool False)) watched_scene"
    by (simp add: toggled_scene_def set_trap_def h depProps_def lookup_def isR_def)
  have sync: "\<forall>a p. subscribed toggled_scene (Queued 0) a p
      \<longleftrightarrow> (\<exists>b. (b, p) \<in> pairs (currentDeps toggled_scene 0) \<and> same_maps toggled_scene a b)"
    unfolding tg by (rule plain_write_in_step [OF h sync1])
  have cur: "pairs (currentDeps toggled_scene 0) = {(8, ''flag''), (8, ''a''), (4, ''x'')}"
    by (auto simp: reactive_scene_defs toggled_scene_def)
  have before: "subscribed toggled_scene (Queued 0) 8 ''a''"
    "subscribed toggled_scene (Queued 0) 4 ''x''"
    by (simp_all add: reactive_scene_defs toggled_scene_def)
  have rs: "reads (fn (flag_watch 0)) toggled_scene = [(8, ''flag'')]"
    by (simp add: reactive_scene_defs toggled_scene_def)
  have m: "same_maps toggled_scene 8 8"
    by (simp add: reactive_scene_defs toggled_scene_def)
  from C4_subscriptions_follow_reads [OF sync, of flag_watch] rs m
  have "pairs (currentDeps (snd (callFn_track flag_watch 0 toggled_scene)) 0) = {(8, ''flag'')}
   \<and> subscribed (snd (callFn_track flag_watch 0 toggled_scene)) (Queued 0) 8 ''flag''
   \<and> \<not> subscribed (snd (callFn_track flag_watch 0 toggled_scene)) (Queued 0) 8 ''a''
   \<and> \<not> subscribed (snd (callFn_track flag_watch 0 toggled_scene)) (Queued 0) 4 ''x''"
    unfolding Let_def by auto
  with sync cur before rs show ?thesis by blast
qed


text \<open>C9, witness: the nested data of the scene, wrapped and wrapped again.\<close>

theorem C9_wrap_idempotent_witness:
  "reactive (Suc (Suc 0)) (Ref 0) (None, None) data_scene = Some (Ref 8, wrapped_scene)
   \<and> reactive 0 (Ref 8) (None, None) wrapped_scene = Some (Ref 8, wrapped_scene)"
proof -
  have "\<exists>s'. reactive (Suc (Suc 0)) (Ref 0) (None, None) data_scene = Some (Ref 8, s')"
    by (simp add: reactive_scene_defs)
  then have a: "reactive (Suc (Suc 0)) (Ref 0) (None, None) data_scene = Some (Ref 8, wrapped_scene)"
    by (auto simp: wrapped_scene_def)
  from C9_wrap_idempotent [OF a, of 0 "(None, None)"] a show ?thesis by simp
qed

text \<open>
  C5, witness: \<^verbatim>\<open>data.a.x = 5\<close> on the watched data calls the observer of
  \<open>x\<close> with (5, 1) and then the observer that the parent keeps for \<open>a\<close>.
\<close>

theorem C5_plain_write_notifies_witness:
  "heap watched_scene 4 =
     Some (Proxy \<lparr> source = [(''x'', Prim (Num 1))], isArray = False, registry_of = 3,
                   parent = Some (''a'', 8) \<rparr>)
   \<and> ''x'' \<notin> depProps
   \<and> \<not> (truthy_val (Prim (Num 5)) \<and> isR watched_scene (Prim (Num 1)))
   \<and> (\<exists>s'. set_trap 0 4 ''x'' (Prim (Num 5)) watched_scene = Some (Inr s')
         \<and> trace s' = trace watched_scene
             @ [Notified (Queued 0) (Prim (Num 5)) (Prim (Num 1)),
                Notified (Queued 0) (Ref 8) (Prim Undefined)])"
proof -
  let ?px = "\<lparr> source = [(''x'', Prim (Num 1))], isArray = False, registry_of = 3,
                parent = Some (''a'', 8) \<rparr>"
  have h: "heap watched_scene 4 = Some (Proxy ?px)"
    by (simp add: reactive_scene_defs)
  have d: "''x'' \<notin> depProps" by (simp add: depProps_def)
  have p: "\<not> (truthy_val (Prim (Num 5)) \<and> isR watched_scene (lookup (source ?px) ''x''))"
    by (simp add: isR_def lookup_def)
  have o: "members (observers (regs watched_scene 3)) ''x'' = [Queued 0]"
    "members (observers (regs watched_scene 7)) ''a'' = [Queued 0]"
    "\<exists>pp. heap watched_scene 8 = Some (Proxy pp) \<and> registry_of pp = 7"
    by (simp_all add: reactive_scene_defs)
  from C5_plain_write_notifies [OF h d p, of 0] o
  have "\<exists>s'. set_trap 0 4 ''x'' (Prim (Num 5)) watched_scene = Some (Inr s')
         \<and> trace s' = trace watched_scene
             @ [Notified (Queued 0) (Prim (Num 5)) (Prim (Num 1)),
                Notified (Queued 0) (Ref 8) (Prim Undefined)]"
    by (auto simp: lookup_def)
  with h d p show ?thesis by (simp add: lookup_def)
qed


section \<open>Properties of the engine\<close>



lemma closeSubPartial_live_idle:
  "p_l (u_sub st) = 0 \<Longrightarrow> closeSubPartial_live host hooks (st, b) = Some (Inr (st, b))"
  by (simp add: closeSubPartial_live_def)




section \<open>The scenes of the engine\<close>





end
